theory Spec2Isabelle
  imports Main
begin

section \<open>Errors\<close>

text \<open>
  The exceptions of the Python source that the modelled code can meet. A function that can
  raise returns \<open>error + 'a\<close>, with \<open>Inl\<close> for the exception.
\<close>

datatype error =
    ValueError
  | IndexError
  | KeyError
  | AttributeError
  | DatabaseError
  | ProgrammingError
  | OSError
  | ExtractorError
  | Empty

text \<open>\<open>str(e)\<close>, as \<open>print(e)\<close> writes it; the message is abstracted to the class name.\<close>

definition error_text :: "error \<Rightarrow> string" where
  "error_text e =
     (case e of
        ValueError \<Rightarrow> ''ValueError''
      | IndexError \<Rightarrow> ''IndexError''
      | KeyError \<Rightarrow> ''KeyError''
      | AttributeError \<Rightarrow> ''AttributeError''
      | DatabaseError \<Rightarrow> ''DatabaseError''
      | ProgrammingError \<Rightarrow> ''ProgrammingError''
      | OSError \<Rightarrow> ''OSError''
      | ExtractorError \<Rightarrow> ''ExtractorError''
      | Empty \<Rightarrow> ''Empty'')"

section \<open>The \<open>files\<close> table and the database connection\<close>

text \<open>
  The thirteen columns that \<open>insert_new_record_files\<close> writes, in the order of its
  \<open>INSERT\<close> statement (\<open>type\<close> and \<open>size\<close> are named \<open>ftype\<close> and \<open>fsize\<close> here).
  The column \<open>id\<close> is assigned by the storage, so a stored row is a pair of an id and the
  thirteen columns.
\<close>

record file_record =
  crawl_id :: int
  dir_path :: string
  name :: string
  ftype :: string
  fsize :: int
  metadata :: string
  creation_time :: string
  access_time :: string
  modification_time :: string
  deleted :: bool
  deleted_time :: "string option"
  file_hash :: string
  in_metadata :: bool

type_synonym files_row = "int \<times> file_record"

text \<open>
  A row of the result of the history query of \<open>check_directory\<close>:
  \<open>SELECT id, crawl_id, dir_path, name, file_hash\<close>. The source reads \<open>x[0]\<close>, \<open>x[1]\<close>
  and \<open>x[-1]\<close>.
\<close>

type_synonym select_row = "int \<times> int \<times> string \<times> string \<times> string"

definition x_0 :: "select_row \<Rightarrow> int" where
  "x_0 x = fst x"

definition x_1 :: "select_row \<Rightarrow> int" where
  "x_1 x = fst (snd x)"

definition x_last :: "select_row \<Rightarrow> string" where
  "x_last x = snd (snd (snd (snd x)))"

text \<open>
  The statements the three operations send. The SQL text is abstracted to what it asks
  for: the rows of a multi-row \<open>INSERT\<close>, the path of the history \<open>SELECT\<close>, the ids and
  the timestamp of the soft-delete \<open>UPDATE\<close>.
\<close>

datatype statement =
    InsertFiles "file_record list"
  | SelectDir string
  | UpdateDeleted "int list" string

text \<open>
  The connection of psycopg2, as far as the source uses it: \<open>stored\<close> is the committed
  table, \<open>work\<close> the table as the open transaction sees it, \<open>next_id\<close> the sequence of
  the \<open>id\<close> column, \<open>statements\<close> every statement passed to \<open>execute\<close>, and \<open>log\<close> and
  \<open>printed\<close> what the module has written with \<open>_logger.warning\<close> and \<open>print\<close>.
\<close>

record connection =
  stored :: "files_row list"
  work :: "files_row list"
  next_id :: int
  statements :: "statement list"
  log :: "string list"
  printed :: "string list"

definition commit :: "connection \<Rightarrow> connection" where
  "commit con = con\<lparr>stored := work con\<rparr>"

definition rollback :: "connection \<Rightarrow> connection" where
  "rollback con = con\<lparr>work := stored con\<rparr>"

text \<open>
  What the server does with one statement is not decided by the source, so it is an
  argument of every operation: \<open>NoFault\<close> lets the statement run, \<open>FaultAfter k\<close> makes
  \<open>execute\<close> raise after the statement has touched \<open>k\<close> rows of the transaction's view
  (PostgreSQL itself leaves nothing behind, which is \<open>k = 0\<close>; the model lets the failed
  statement leave a part behind, so that only \<open>rollback\<close> can clear it).
  \<open>commit\<close>, \<open>rollback\<close>, \<open>cursor\<close> and \<open>close\<close> are taken to succeed.
\<close>

datatype fault = NoFault | FaultAfter nat

fun assign_ids :: "int \<Rightarrow> file_record list \<Rightarrow> files_row list" where
  "assign_ids n [] = []"
| "assign_ids n (r # rs) = (n, r) # assign_ids (n + 1) rs"

definition mark_deleted :: "int list \<Rightarrow> string \<Rightarrow> files_row \<Rightarrow> files_row" where
  "mark_deleted ids now row =
     (if fst row \<in> set ids
      then (fst row, (snd row)\<lparr>deleted := True, deleted_time := Some now\<rparr>)
      else row)"

definition select_dir :: "string \<Rightarrow> files_row list \<Rightarrow> select_row list" where
  "select_dir path tbl =
     map (\<lambda>row. (fst row, crawl_id (snd row), dir_path (snd row), name (snd row),
                  file_hash (snd row)))
         (filter (\<lambda>row. dir_path (snd row) = path) tbl)"

definition apply_statement :: "statement \<Rightarrow> connection \<Rightarrow> connection" where
  "apply_statement st con =
     (case st of
        InsertFiles rs \<Rightarrow>
          con\<lparr>work := work con @ assign_ids (next_id con) rs,
              next_id := next_id con + int (length rs)\<rparr>
      | SelectDir path \<Rightarrow> con
      | UpdateDeleted ids now \<Rightarrow> con\<lparr>work := map (mark_deleted ids now) (work con)\<rparr>)"

definition truncate_statement :: "nat \<Rightarrow> statement \<Rightarrow> statement" where
  "truncate_statement k st =
     (case st of
        InsertFiles rs \<Rightarrow> InsertFiles (take k rs)
      | SelectDir path \<Rightarrow> SelectDir path
      | UpdateDeleted ids now \<Rightarrow> UpdateDeleted (take k ids) now)"

text \<open>
  \<open>curs.execute(query)\<close> followed, for the \<open>SELECT\<close>, by \<open>curs.fetchall()\<close>. An \<open>INSERT\<close>
  with no row is the text \<open>INSERT ... VALUES\<close> (the source cuts the last character of the
  query, which is then the blank after \<open>VALUES\<close>): a syntax error whatever the server's
  state.
\<close>

definition execute ::
  "fault \<Rightarrow> statement \<Rightarrow> connection \<Rightarrow> (error + select_row list) \<times> connection" where
  "execute flt st con =
     (let con1 = con\<lparr>statements := statements con @ [st]\<rparr> in
      if st = InsertFiles [] then (Inl DatabaseError, con1)
      else case flt of
             FaultAfter k \<Rightarrow> (Inl DatabaseError, apply_statement (truncate_statement k st) con1)
           | NoFault \<Rightarrow>
               (case st of
                  SelectDir path \<Rightarrow> (Inr (select_dir path (work con1)), con1)
                | _ \<Rightarrow> (Inr [], apply_statement st con1)))"

subsection \<open>\<open>check_directory\<close>\<close>

text \<open>
  The decorator \<open>measure_time\<close> returns the wrapped method's result and lets its
  exceptions through; it only adds to a timer, which no other code reads. It is left out.

  \<open>max\<close> of an empty set raises \<open>ValueError\<close>; the source calls it outside any \<open>try\<close>.
\<close>

definition check_directory ::
  "fault \<Rightarrow> connection \<Rightarrow> string \<Rightarrow> string list \<Rightarrow> (error + int list) \<times> connection" where
  "check_directory flt con path current_hashes =
     (case execute flt (SelectDir path) con of
        (Inl e, con1) \<Rightarrow> (Inr [], con1)
      | (Inr get, con1) \<Rightarrow>
          (let con2 = commit con1;
               id_set = set (map x_1 get)
           in if id_set = {} then (Inl ValueError, con2)
              else
                let id_set' = id_set - {Max id_set}
                in if id_set' = {} then (Inr [], con2)
                   else
                     let recent_crawl = Max id_set'
                     in (Inr (map x_0
                               (filter (\<lambda>x. x_1 x = recent_crawl \<and> x_last x \<in> set current_hashes)
                                  get)),
                         con2)))"

text \<open>
  The crawl generations recorded for a path, and the rows recorded for it, as the
  connection sees the table.
\<close>

definition rows_of :: "connection \<Rightarrow> string \<Rightarrow> files_row list" where
  "rows_of con path = filter (\<lambda>row. dir_path (snd row) = path) (work con)"

definition generations :: "connection \<Rightarrow> string \<Rightarrow> int set" where
  "generations con path = set (map (\<lambda>row. crawl_id (snd row)) (rows_of con path))"

text \<open>
  \<open>g\<close> is the second-highest crawl id of \<open>S\<close>: it is in \<open>S\<close>, below the highest, and no
  other id below the highest is above it.
\<close>

definition second_highest :: "int set \<Rightarrow> int \<Rightarrow> bool" where
  "second_highest S g \<longleftrightarrow> g \<in> S \<and> g < Max S \<and> (\<forall>h \<in> S. h < Max S \<longrightarrow> h \<le> g)"

text \<open>
  The ids of the rows recorded for the path in generation \<open>g\<close> whose hash is among
  \<open>hashes\<close>, in the order of the table.
\<close>

definition candidate_ids :: "connection \<Rightarrow> string \<Rightarrow> int \<Rightarrow> string list \<Rightarrow> int list" where
  "candidate_ids con path g hashes =
     map fst (filter (\<lambda>row. crawl_id (snd row) = g \<and> file_hash (snd row) \<in> set hashes)
                (rows_of con path))"

subsection \<open>\<open>set_deleted\<close>\<close>

text \<open>
  \<open>now\<close> is the value of \<open>datetime.now()\<close>. The \<open>try\<close> block holds \<open>execute\<close>, \<open>close\<close>
  and \<open>commit\<close>; its handler catches every \<open>Exception\<close>, prints it, logs a warning and
  rolls back. The function returns \<open>None\<close> on every path.
\<close>

definition set_deleted ::
  "fault \<Rightarrow> string \<Rightarrow> connection \<Rightarrow> int list \<Rightarrow> (error + unit) \<times> connection" where
  "set_deleted flt now con file_ids =
     (if length file_ids < 1 then (Inr (), con)
      else
        case execute flt (UpdateDeleted file_ids now) con of
          (Inr rows, con1) \<Rightarrow> (Inr (), commit con1)
        | (Inl e, con1) \<Rightarrow>
            (Inr (),
             rollback (con1\<lparr>printed := printed con1 @ [error_text e],
                            log := log con1 @ [''Error updating file deletion'']\<rparr>)))"

subsection \<open>\<open>insert_new_record_files\<close>\<close>

text \<open>
  The loop that renders every tuple with \<open>curs.mogrify\<close> stands before the \<open>try\<close>. psycopg2
  raises there when a tuple does not fit the thirteen placeholders or holds a value it
  cannot adapt; the typed record hides both, so which tuples fail is the argument
  \<open>cannot_adapt\<close>. The loop stops at the first such tuple.
\<close>

fun mogrify_all :: "(file_record \<Rightarrow> bool) \<Rightarrow> file_record list \<Rightarrow> error + file_record list" where
  "mogrify_all cannot_adapt [] = Inr []"
| "mogrify_all cannot_adapt (ins # rest) =
     (if cannot_adapt ins then Inl ProgrammingError
      else case mogrify_all cannot_adapt rest of
             Inl e \<Rightarrow> Inl e
           | Inr rendered \<Rightarrow> Inr (ins # rendered))"

definition insert_new_record_files ::
  "(file_record \<Rightarrow> bool) \<Rightarrow> fault \<Rightarrow> connection \<Rightarrow> file_record list
     \<Rightarrow> (error + unit) \<times> connection" where
  "insert_new_record_files cannot_adapt flt con insert_values =
     (case mogrify_all cannot_adapt insert_values of
        Inl e \<Rightarrow> (Inl e, con)
      | Inr query \<Rightarrow>
          (case execute flt (InsertFiles query) con of
             (Inl e, con1) \<Rightarrow>
               (Inl e,
                rollback
                  (con1\<lparr>log := log con1 @ [''Error inserting new files into the database'']\<rparr>))
           | (Inr rows, con1) \<Rightarrow> (Inr (), commit con1)))"

text \<open>
  A failure occurs in a call when \<open>mogrify\<close> raises on some tuple or \<open>execute\<close> raises,
  which it does under a fault of the server and on the statement without rows.
\<close>

definition failure_occurs :: "(file_record \<Rightarrow> bool) \<Rightarrow> fault \<Rightarrow> file_record list \<Rightarrow> bool" where
  "failure_occurs cannot_adapt flt insert_values \<longleftrightarrow>
     list_ex cannot_adapt insert_values \<or> flt \<noteq> NoFault \<or> insert_values = []"

subsection \<open>A table for the examples\<close>

definition file_row :: "int \<Rightarrow> int \<Rightarrow> string \<Rightarrow> string \<Rightarrow> string \<Rightarrow> files_row" where
  "file_row i c d n h =
     (i, \<lparr>crawl_id = c, dir_path = d, name = n, ftype = ''TXT'', fsize = 12,
          metadata = ''{}'', creation_time = ''-infinity'', access_time = ''-infinity'',
          modification_time = ''-infinity'', deleted = False, deleted_time = None,
          file_hash = h, in_metadata = False\<rparr>)"

definition example_table :: "files_row list" where
  "example_table =
     [file_row 1 1 ''/d'' ''old.txt'' ''hashO'',
      file_row 2 2 ''/d'' ''a.txt'' ''hashA'',
      file_row 3 2 ''/d'' ''b.txt'' ''hashB'',
      file_row 4 2 ''/e'' ''c.txt'' ''hashA'',
      file_row 5 3 ''/d'' ''a.txt'' ''hashA'']"

definition example_con :: connection where
  "example_con =
     \<lparr>stored = example_table, work = example_table, next_id = 6, statements = [],
      log = [], printed = []\<rparr>"

definition example_batch :: "file_record list" where
  "example_batch =
     [snd (file_row 0 4 ''/d'' ''a.txt'' ''hashA''), snd (file_row 0 4 ''/d'' ''n.txt'' ''hashN'')]"

section \<open>Python strings and integers\<close>

text \<open>
  \<open>xs[i]\<close> for an index \<open>i \<ge> 0\<close>: \<open>IndexError\<close> beyond the end.
\<close>

definition py_index :: "'a list \<Rightarrow> nat \<Rightarrow> error + 'a" where
  "py_index xs i = (if i < length xs then Inr (xs ! i) else Inl IndexError)"

text \<open>
  \<open>s.split(' ')\<close>: the pieces between single blanks. Two blanks in a row give an empty
  piece, and the empty string gives one empty piece.
\<close>

fun split_blank :: "string \<Rightarrow> string list" where
  "split_blank [] = [[]]"
| "split_blank (c # cs) =
     (if c = CHR '' '' then [] # split_blank cs
      else case split_blank cs of
             [] \<Rightarrow> [[c]]
           | piece # pieces \<Rightarrow> (c # piece) # pieces)"

text \<open>\<open>str(n)\<close> of an integer: its decimal digits, after a minus sign when negative.\<close>

definition is_digit :: "char \<Rightarrow> bool" where
  "is_digit c \<longleftrightarrow> 48 \<le> (of_char c :: nat) \<and> (of_char c :: nat) \<le> 57"

definition digit_val :: "char \<Rightarrow> nat" where
  "digit_val c = of_char c - 48"

definition digit_char :: "nat \<Rightarrow> char" where
  "digit_char d = char_of (48 + d)"

fun digits :: "nat \<Rightarrow> string" where
  "digits n = (if n < 10 then [digit_char n] else digits (n div 10) @ [digit_char (n mod 10)])"

declare digits.simps [simp del]

definition py_str :: "int \<Rightarrow> string" where
  "py_str n = (if n < 0 then CHR ''-'' # digits (nat (- n)) else digits (nat n))"

text \<open>
  \<open>int(s)\<close> of a string, base ten, for ASCII text: the blank, tab, line feed, vertical
  tab, form feed and carriage return around the number are dropped, one sign may lead,
  and the digits may be grouped by single underscores. Anything else is a \<open>ValueError\<close>.
  Integers are unbounded.
\<close>

definition is_space :: "char \<Rightarrow> bool" where
  "is_space c \<longleftrightarrow>
     c \<in> set [CHR '' '', CHR 0x09, CHR 0x0A, CHR 0x0B, CHR 0x0C, CHR 0x0D]"

definition strip :: "string \<Rightarrow> string" where
  "strip s = rev (dropWhile is_space (rev (dropWhile is_space s)))"

fun digits_value :: "nat \<Rightarrow> string \<Rightarrow> nat option" where
  "digits_value acc [] = Some acc"
| "digits_value acc (c # cs) =
     (if is_digit c then digits_value (10 * acc + digit_val c) cs
      else if c = CHR ''_'' \<and> cs \<noteq> [] \<and> is_digit (hd cs) then digits_value acc cs
      else None)"

definition parse_digits :: "string \<Rightarrow> nat option" where
  "parse_digits s =
     (case s of
        [] \<Rightarrow> None
      | c # cs \<Rightarrow> if is_digit c then digits_value 0 s else None)"

definition py_int :: "string \<Rightarrow> error + int" where
  "py_int s =
     (case strip s of
        [] \<Rightarrow> Inl ValueError
      | c # cs \<Rightarrow>
          if c = CHR ''-'' then
            (case parse_digits cs of None \<Rightarrow> Inl ValueError | Some n \<Rightarrow> Inr (- int n))
          else if c = CHR ''+'' then
            (case parse_digits cs of None \<Rightarrow> Inl ValueError | Some n \<Rightarrow> Inr (int n))
          else
            (case parse_digits (c # cs) of None \<Rightarrow> Inl ValueError | Some n \<Rightarrow> Inr (int n)))"

section \<open>The worker\<close>

subsection \<open>\<open>getSize\<close>\<close>

text \<open>
  The source takes the second piece of the size string as the unit, reads its first
  character, and only then converts the first piece with \<open>int\<close>. Each of the three steps
  can raise.
\<close>

definition getSize :: "string \<Rightarrow> error + string" where
  "getSize sz =
     (case py_index (split_blank sz) 1 of
        Inl e \<Rightarrow> Inl e
      | Inr unit \<Rightarrow>
          (case py_index unit 0 of
             Inl e \<Rightarrow> Inl e
           | Inr unit_0 \<Rightarrow>
               (let multipl =
                      (if unit_0 = CHR ''k'' then 1000
                       else if unit_0 = CHR ''m'' then 1000000
                       else if unit_0 = CHR ''g'' then 1000000000
                       else if unit_0 = CHR ''t'' then 1000000000000
                       else 1)
                in case py_index (split_blank sz) 0 of
                     Inl e \<Rightarrow> Inl e
                   | Inr number \<Rightarrow>
                       (case py_int number of
                          Inl e \<Rightarrow> Inl e
                        | Inr n \<Rightarrow> Inr (py_str (n * multipl))))))"

subsection \<open>\<open>createInsert\<close>\<close>

text \<open>
  One result of the extractor is a JSON object: a dictionary from tag names to values.
  A value is a string, or something else (a number, a list), of which only its \<open>str\<close>
  text matters here; \<open>getSize\<close> on it raises \<open>AttributeError\<close>, as it has no \<open>split\<close>.
\<close>

datatype json = JString string | JOther string

definition str_json :: "json \<Rightarrow> string" where
  "str_json v = (case v of JString s \<Rightarrow> s | JOther s \<Rightarrow> s)"

type_synonym exif = "string \<Rightarrow> json option"

definition apostrophe :: string where
  "apostrophe = [CHR 0x27]"

definition replace_colon :: "string \<Rightarrow> string" where
  "replace_colon s = map (\<lambda>c. if c = CHR '':'' then CHR ''-'' else c) s"

definition mandatory :: "string list" where
  "mandatory = [''Directory'', ''FileName'', ''FileType'', ''FileSize'']"

text \<open>
  The three loops of the source add one piece to \<open>value\<close> for each tag. A missing tag is
  a \<open>KeyError\<close> inside the loop's \<open>try\<close>, which the bare \<open>except\<close> turns into the default
  piece. The date is cut as the source cuts it: characters 1 to 11 of the quoted text,
  colons replaced, followed by the text from character 13 on.
\<close>

definition text_piece :: "exif \<Rightarrow> string \<Rightarrow> string" where
  "text_piece exif i =
     (case exif i of
        Some v \<Rightarrow> apostrophe @ str_json v @ apostrophe @ '', ''
      | None \<Rightarrow> ''NULL, '')"

definition size_piece :: "exif \<Rightarrow> string \<Rightarrow> string" where
  "size_piece exif i =
     (case exif i of
        Some (JString s) \<Rightarrow>
          (case getSize s of
             Inr val \<Rightarrow> apostrophe @ val @ apostrophe @ '', ''
           | Inl e \<Rightarrow> ''NULL, '')
      | Some (JOther s) \<Rightarrow> ''NULL, ''
      | None \<Rightarrow> ''NULL, '')"

definition date_piece :: "exif \<Rightarrow> string \<Rightarrow> string" where
  "date_piece exif i =
     (case exif i of
        Some v \<Rightarrow>
          (let valueTmp = apostrophe @ str_json v
           in apostrophe @ (replace_colon (take 11 (drop 1 valueTmp)) @ drop 13 valueTmp)
                @ apostrophe @ '', '')
      | None \<Rightarrow> apostrophe @ ''-infinity'' @ apostrophe @ '', '')"

definition createInsert :: "exif \<Rightarrow> string \<Rightarrow> string" where
  "createInsert exif value =
     (if list_ex (\<lambda>element. exif element = None) mandatory then ''0''
      else
        let val1 = foldl (\<lambda>v i. v @ text_piece exif i) value
                     [''Directory'', ''FileName'', ''FileType''];
            val2 = foldl (\<lambda>v i. v @ size_piece exif i) val1 [''FileSize''];
            val3 = foldl (\<lambda>v i. v @ date_piece exif i) val2
                     [''FileAccessDate'', ''FileModifyDate'', ''FileCreationDate'']
        in val3)"

subsection \<open>The worker's state and its surroundings\<close>

text \<open>
  The two queues are shared with the coordinator, which fills them while the worker runs.
  The command queue is modelled as the sequence of what the worker finds each time it
  looks: \<open>Some c\<close> when the command \<open>c\<close> is waiting, \<open>None\<close> when the queue is empty at
  that moment. After the last entry no command ever arrives. The work queue is the list
  of packages still in it. It is shared with the other workers, and the loop of
  \<open>_clean_up\<close> first asks \<open>empty()\<close> and then calls \<open>get(False)\<close>: between the two another
  worker can take packages or hold the lock of the queue, and the \<open>get\<close> then raises
  \<open>Empty\<close>. \<open>races\<close> is what happens at each such \<open>get\<close>: \<open>None\<close> when it returns the
  first package, \<open>Some n\<close> when the other workers have taken \<open>n\<close> packages and the
  \<open>get\<close> raises (\<open>n = 0\<close>: only the lock was held). After the last entry no other worker
  interferes. In the loop of \<open>run\<close> the worker's own \<open>get(False)\<close> is taken to find the
  first package of the list whenever there is one. \<open>pool_closed\<close> records \<open>closeall()\<close> on the worker's
  connection pool, \<open>inserted\<close> the statements \<open>insert_new_record\<close> has accepted,
  \<open>traced\<close> the directories given to \<open>TRACER.add_node\<close>, \<open>stdout\<close> what \<open>print\<close> has
  written and \<open>critical\<close> the messages of \<open>logging.critical\<close>.
\<close>

record worker =
  tree_walk_id :: int
  command_queue :: "string option list"
  work_packages :: "string list list"
  races :: "nat option list"
  pool_closed :: bool
  inserted :: "string list"
  traced :: "string list"
  stdout :: "string list"
  critical :: "string list"

text \<open>
  What the source does not decide: the output of the extractor for a package (or the
  exception of starting it or of parsing its output), the content of a file (\<open>None\<close> when
  \<open>open\<close> or \<open>read\<close> raises), the digest, the texts of \<open>json.dumps\<close> and of \<open>print\<close> for
  a result, and the statements on which \<open>insert_new_record\<close> raises. The class
  \<open>DatabaseConnection\<close> of the worker's pool and the tracer are not among the source
  files: the worker's calls of them appear by their effect on the state above
  (\<open>inserted\<close>, \<open>pool_closed\<close>, \<open>traced\<close>), and the failure of the insert is a parameter.
\<close>

record environment =
  exiftool :: "string list \<Rightarrow> error + exif list"
  read_file :: "string \<Rightarrow> string option"
  sha256_hexdigest :: "string \<Rightarrow> string"
  json_dumps :: "exif \<Rightarrow> string"
  repr :: "exif \<Rightarrow> string"
  insert_raises :: "string \<Rightarrow> bool"

subsection \<open>\<open>_do_work\<close>\<close>

text \<open>
  The methods \<open>_do_work\<close> and \<open>_clean_up\<close> are \<open>do_work\<close> and \<open>clean_up\<close> here. The
  executable of the extractor comes from the configuration, before the \<open>try\<close>; the debug
  and info messages of the logger are left out.
\<close>

definition insertin :: string where
  "insertin = ''INSERT INTO files (crawl_id, dir_path, name, type, size, creation_time, access_time, modification_time, metadata, file_hash) ''"

definition values_prefix :: "worker \<Rightarrow> string" where
  "values_prefix w = ''VALUES ('' @ apostrophe @ py_str (tree_walk_id w) @ apostrophe @ '', ''"

definition subscript :: "exif \<Rightarrow> string \<Rightarrow> error + json" where
  "subscript result key = (case result key of None \<Rightarrow> Inl KeyError | Some v \<Rightarrow> Inr v)"

definition file_path :: "exif \<Rightarrow> error + string" where
  "file_path result =
     (case subscript result ''Directory'' of
        Inl e \<Rightarrow> Inl e
      | Inr d \<Rightarrow>
          (case subscript result ''FileName'' of
             Inl e \<Rightarrow> Inl e
           | Inr n \<Rightarrow> Inr (str_json d @ ''/'' @ str_json n)))"

definition insert_statement :: "environment \<Rightarrow> string \<Rightarrow> exif \<Rightarrow> string \<Rightarrow> string" where
  "insert_statement env values result hash256 =
     insertin @ values @ (apostrophe @ json_dumps env result @ apostrophe) @ '', ''
       @ (apostrophe @ hash256 @ apostrophe) @ '')''"

definition core_value_missing :: string where
  "core_value_missing =
     ''Can'' @ apostrophe @ ''t insert element into database because a core value is missing''"

text \<open>
  The body of the loop from \<open>with open(...)\<close> to \<open>insert_new_record\<close>, for a result
  that passed the check: either the statement that was inserted, or the exception of
  \<open>open\<close> and \<open>read\<close> or of the insert.
\<close>

definition hash_and_insert :: "environment \<Rightarrow> string \<Rightarrow> exif \<Rightarrow> error + string" where
  "hash_and_insert env values result =
     (case file_path result of
        Inl e \<Rightarrow> Inl e
      | Inr path \<Rightarrow>
          (case read_file env path of
             None \<Rightarrow> Inl OSError
           | Some bytes \<Rightarrow>
               (let hash256 = sha256_hexdigest env bytes;
                    statement = insert_statement env values result hash256
                in if insert_raises env statement then Inl DatabaseError else Inr statement)))"

text \<open>
  The loop over the results inside the \<open>try\<close>. It returns the exception that ended it, if
  any, with the state reached: what was inserted before the exception stays inserted.
\<close>

fun process_results ::
  "environment \<Rightarrow> string \<Rightarrow> exif list \<Rightarrow> worker \<Rightarrow> error option \<times> worker" where
  "process_results env value [] w = (None, w)"
| "process_results env value (result # results) w =
     (let values = createInsert result value
      in if values = ''0''
         then process_results env value results
                (w\<lparr>stdout := stdout w @ [core_value_missing, repr env result]\<rparr>)
         else
           case hash_and_insert env values result of
             Inl e \<Rightarrow> (Some e, w)
           | Inr statement \<Rightarrow>
               (case subscript result ''Directory'' of
                  Inl e \<Rightarrow> (Some e, w\<lparr>inserted := inserted w @ [statement]\<rparr>)
                | Inr d \<Rightarrow>
                    process_results env value results
                      (w\<lparr>inserted := inserted w @ [statement],
                         traced := traced w @ [str_json d]\<rparr>)))"

definition do_work_try :: "environment \<Rightarrow> worker \<Rightarrow> string list \<Rightarrow> error option \<times> worker" where
  "do_work_try env w package =
     (case exiftool env package of
        Inl e \<Rightarrow> (Some e, w)
      | Inr results \<Rightarrow> process_results env (values_prefix w) results w)"

text \<open>\<open>except Exception as e: print(e)\<close>: the method returns normally on every path.\<close>

definition do_work :: "environment \<Rightarrow> worker \<Rightarrow> string list \<Rightarrow> worker" where
  "do_work env w package =
     (case do_work_try env w package of
        (None, w1) \<Rightarrow> w1
      | (Some e, w1) \<Rightarrow> w1\<lparr>stdout := stdout w1 @ [error_text e]\<rparr>)"

subsection \<open>\<open>_clean_up\<close> and \<open>run_command\<close>\<close>

definition COMMAND_STOP :: string where
  "COMMAND_STOP = ''stop''"

definition COMMAND_PAUSE :: string where
  "COMMAND_PAUSE = ''pause''"

definition COMMAND_UNPAUSE :: string where
  "COMMAND_UNPAUSE = ''unpause''"

text \<open>
  \<open>command_queue.get(False)\<close> takes what the worker finds at this look, and
  \<open>command_queue.get()\<close> waits for the next command: it skips the looks that find
  nothing, and never returns (\<open>None\<close>) when no command arrives any more.
\<close>

fun get_nowait :: "string option list \<Rightarrow> string option \<times> string option list" where
  "get_nowait [] = (None, [])"
| "get_nowait (x # q) = (x, q)"

fun get_blocking :: "string option list \<Rightarrow> (string \<times> string option list) option" where
  "get_blocking [] = None"
| "get_blocking (None # q) = get_blocking q"
| "get_blocking (Some c # q) = Some (c, q)"

text \<open>
  \<open>while not self.work_packages.empty(): self.work_packages.get(False)\<close>. The result is
  the exception that ended the loop, if any, with what is left of \<open>races\<close> and of the
  queue.
\<close>

fun drain ::
  "nat option list \<Rightarrow> string list list \<Rightarrow> error option \<times> nat option list \<times> string list list" where
  "drain rs [] = (None, rs, [])"
| "drain [] (package # rest) = drain [] rest"
| "drain (None # rs) (package # rest) = drain rs rest"
| "drain (Some n # rs) (package # rest) = (Some Empty, rs, drop n (package # rest))"

text \<open>
  \<open>_clean_up\<close> closes the pool first and then empties the queue; an \<open>Empty\<close> of the loop
  leaves the method with the pool closed.
\<close>

definition clean_up :: "worker \<Rightarrow> error option \<times> worker" where
  "clean_up w =
     (let w1 = w\<lparr>pool_closed := True\<rparr>
      in case drain (races w1) (work_packages w1) of
           (e, rs, packages) \<Rightarrow> (e, w1\<lparr>races := rs, work_packages := packages\<rparr>))"

definition invalid_command :: "string \<Rightarrow> string" where
  "invalid_command command = ''Retrieved invalid command '' @ command"

lemma get_blocking_shorter:
  "get_blocking q = Some (c, q') \<Longrightarrow> length q' < length q"
  by (induction q rule: get_blocking.induct) auto

text \<open>
  The result is \<open>None\<close> when the call never returns. Otherwise it is the state with
  \<open>Inr\<close> of the returned flag (\<open>False\<close> to continue, \<open>True\<close> to stop), or with \<open>Inl\<close> of
  the exception that \<open>_clean_up\<close> raised: then \<open>return True\<close> is not reached.
\<close>

function run_command :: "worker \<Rightarrow> string \<Rightarrow> ((error + bool) \<times> worker) option" where
  "run_command w command =
     (if command = COMMAND_UNPAUSE then Some (Inr False, w)
      else if command = COMMAND_PAUSE then
        (case get_blocking (command_queue w) of
           None \<Rightarrow> None
         | Some (next_command, q) \<Rightarrow> run_command (w\<lparr>command_queue := q\<rparr>) next_command)
      else if command = COMMAND_STOP then
        (case clean_up w of
           (Some e, w1) \<Rightarrow> Some (Inl e, w1)
         | (None, w1) \<Rightarrow> Some (Inr True, w1))
      else
        (case clean_up (w\<lparr>critical := critical w @ [invalid_command command]\<rparr>) of
           (Some e, w1) \<Rightarrow> Some (Inl e, w1)
         | (None, w1) \<Rightarrow> Some (Inr True, w1)))"
  by pat_completeness auto
termination
  by (relation "measure (\<lambda>(w, command). length (command_queue w))")
     (auto dest: get_blocking_shorter)

declare run_command.simps [simp del]

text \<open>The equation of \<open>run_command\<close>, one command at a time.\<close>

lemma run_command_unpause: "run_command w COMMAND_UNPAUSE = Some (Inr False, w)"
  by (subst run_command.simps) simp

lemma run_command_pause:
  "run_command w COMMAND_PAUSE =
     (case get_blocking (command_queue w) of
        None \<Rightarrow> None
      | Some (next_command, q) \<Rightarrow> run_command (w\<lparr>command_queue := q\<rparr>) next_command)"
  by (subst run_command.simps) (simp add: COMMAND_PAUSE_def COMMAND_UNPAUSE_def)

lemma run_command_stop:
  "run_command w COMMAND_STOP =
     (case clean_up w of
        (Some e, w1) \<Rightarrow> Some (Inl e, w1)
      | (None, w1) \<Rightarrow> Some (Inr True, w1))"
  by (subst run_command.simps) (simp add: COMMAND_PAUSE_def COMMAND_UNPAUSE_def COMMAND_STOP_def)

lemma run_command_invalid:
  assumes "command \<noteq> COMMAND_UNPAUSE" "command \<noteq> COMMAND_PAUSE" "command \<noteq> COMMAND_STOP"
  shows "run_command w command =
           (case clean_up (w\<lparr>critical := critical w @ [invalid_command command]\<rparr>) of
              (Some e, w1) \<Rightarrow> Some (Inl e, w1)
            | (None, w1) \<Rightarrow> Some (Inr True, w1))"
  using assms by (subst run_command.simps) simp

text \<open>What \<open>_clean_up\<close> and \<open>run_command\<close> leave of the work queue is never longer.\<close>

lemma drain_result:
  "drain rs packages = (e, rs', packages') \<Longrightarrow>
     length packages' \<le> length packages \<and> (e = None \<longrightarrow> packages' = []) \<and>
     (e = None \<or> e = Some Empty)"
  by (induction rs packages rule: drain.induct) auto

lemma clean_up_result:
  assumes "clean_up w = (e, w')"
  shows "length (work_packages w') \<le> length (work_packages w) \<and> pool_closed w' \<and>
         (e = None \<longrightarrow> work_packages w' = []) \<and> (e = None \<or> e = Some Empty) \<and>
         inserted w' = inserted w \<and> traced w' = traced w \<and> stdout w' = stdout w"
proof -
  obtain rs packages where d: "drain (races w) (work_packages w) = (e, rs, packages)"
    and w': "w' = w\<lparr>pool_closed := True, races := rs, work_packages := packages\<rparr>"
    using assms by (auto simp: clean_up_def Let_def split: prod.splits)
  from drain_result[OF d] w' show ?thesis by simp
qed

text \<open>
  Every result of \<open>run_command\<close>: \<open>False\<close> with nothing but the command queue changed;
  \<open>True\<close> with the pool closed and the work queue empty; or the exception \<open>Empty\<close> with
  the pool closed. Nothing is inserted, traced or printed.
\<close>

lemma run_command_result:
  "run_command w command = Some (r, w') \<Longrightarrow>
     length (work_packages w') \<le> length (work_packages w) \<and>
     inserted w' = inserted w \<and> traced w' = traced w \<and> stdout w' = stdout w \<and>
     ((r = Inr False \<and> (\<exists>q. w' = w\<lparr>command_queue := q\<rparr>)) \<or>
      (r = Inr True \<and> pool_closed w' \<and> work_packages w' = []) \<or>
      (r = Inl Empty \<and> pool_closed w'))"
proof (induction w command arbitrary: r w' rule: run_command.induct)
  case (1 w command)
  consider (unpause) "command = COMMAND_UNPAUSE"
    | (pause) "command \<noteq> COMMAND_UNPAUSE" "command = COMMAND_PAUSE"
    | (stop) "command = COMMAND_STOP"
    | (invalid) "command \<noteq> COMMAND_UNPAUSE" "command \<noteq> COMMAND_PAUSE" "command \<noteq> COMMAND_STOP"
    by blast
  then show ?case
  proof cases
    case unpause
    with "1.prems" have "r = Inr False" and "w' = w\<lparr>command_queue := command_queue w\<rparr>"
      by (simp_all add: run_command_unpause)
    then have "r = Inr False \<and> (\<exists>q. w' = w\<lparr>command_queue := q\<rparr>)" by blast
    moreover have "length (work_packages w') \<le> length (work_packages w)"
      "inserted w' = inserted w" "traced w' = traced w" "stdout w' = stdout w"
      using \<open>w' = w\<lparr>command_queue := command_queue w\<rparr>\<close> by simp_all
    ultimately show ?thesis by blast
  next
    case pause
    with "1.prems" obtain next_command q where
      g: "get_blocking (command_queue w) = Some (next_command, q)"
      and r: "run_command (w\<lparr>command_queue := q\<rparr>) next_command = Some (r, w')"
      by (auto simp: run_command_pause split: option.splits)
    from "1.IH"[OF pause g refl r] show ?thesis by auto
  next
    case stop
    obtain e w1 where c: "clean_up w = (e, w1)" by (cases "clean_up w")
    from "1.prems" stop c have "w' = w1" "r = (case e of None \<Rightarrow> Inr True | Some x \<Rightarrow> Inl x)"
      by (auto simp: run_command_stop split: option.splits)
    with clean_up_result[OF c] show ?thesis by auto
  next
    case invalid
    obtain e w1 where
      c: "clean_up (w\<lparr>critical := critical w @ [invalid_command command]\<rparr>) = (e, w1)"
      by (cases "clean_up (w\<lparr>critical := critical w @ [invalid_command command]\<rparr>)")
    from "1.prems" invalid c have "w' = w1" "r = (case e of None \<Rightarrow> Inr True | Some x \<Rightarrow> Inl x)"
      by (auto simp: run_command_invalid split: option.splits)
    with clean_up_result[OF c] show ?thesis by auto
  qed
qed

subsection \<open>\<open>run\<close>\<close>

text \<open>
  The first \<open>try\<close> of the loop body: \<open>command = self.command_queue.get(False)\<close>, then
  \<open>if self.run_command(command): break\<close>, with \<open>except Empty: pass\<close>. The flag of the result
  says whether the loop is left. The handler also catches an \<open>Empty\<close> that comes out of
  \<open>run_command\<close>: the loop then goes on. Any other exception would leave the loop;
  \<open>run_command\<close> raises none.
\<close>

definition poll_command :: "worker \<Rightarrow> (bool \<times> worker) option" where
  "poll_command w =
     (case get_nowait (command_queue w) of
        (Some command, q) \<Rightarrow>
          (case run_command (w\<lparr>command_queue := q\<rparr>) command of
             None \<Rightarrow> None
           | Some (Inr stop, w1) \<Rightarrow> Some (stop, w1)
           | Some (Inl e, w1) \<Rightarrow> Some (e \<noteq> Empty, w1))
      | (None, q) \<Rightarrow> Some (False, w\<lparr>command_queue := q\<rparr>))"

lemma poll_command_shorter:
  assumes "poll_command w = Some (b, w')"
  shows "length (work_packages w') \<le> length (work_packages w)"
proof (cases "command_queue w")
  case Nil
  with assms show ?thesis by (auto simp: poll_command_def)
next
  case (Cons x q)
  show ?thesis
  proof (cases x)
    case None
    with Cons assms show ?thesis by (auto simp: poll_command_def)
  next
    case (Some command)
    with Cons assms obtain r where
      "run_command (w\<lparr>command_queue := q\<rparr>) command = Some (r, w')"
      by (auto simp: poll_command_def split: option.splits sum.splits)
    from run_command_result[OF this] show ?thesis by simp
  qed
qed

lemma process_results_work_packages:
  "work_packages (snd (process_results env val results w)) = work_packages w"
  by (induction env val results w rule: process_results.induct)
     (simp_all add: Let_def split: sum.splits option.splits)

lemma do_work_work_packages:
  "work_packages (do_work env w package) = work_packages w"
proof -
  have "work_packages (snd (do_work_try env w package)) = work_packages w"
    by (simp add: do_work_try_def process_results_work_packages split: sum.splits)
  then show ?thesis
    by (cases "do_work_try env w package") (simp add: do_work_def split: option.splits)
qed

text \<open>
  The loop of \<open>run\<close>. The result is \<open>None\<close> when the worker never finishes (it waits in a
  pause for a command that does not come), and otherwise the state in which it finishes.
\<close>

function run :: "environment \<Rightarrow> worker \<Rightarrow> worker option" where
  "run env w =
     (case poll_command w of
        None \<Rightarrow> None
      | Some (break, w1) \<Rightarrow>
          if break then Some w1
          else
            case work_packages w1 of
              [] \<Rightarrow> Some w1
            | package # rest \<Rightarrow> run env (do_work env (w1\<lparr>work_packages := rest\<rparr>) package))"
  by pat_completeness auto
termination
proof (relation "measure (\<lambda>(env, w). length (work_packages w))")
  show "wf (measure (\<lambda>(env, w). length (work_packages w)))" by simp
next
  fix env w x2 break w1 package rest
  assume "poll_command w = Some x2" "(break, w1) = x2" "\<not> break"
    "work_packages w1 = package # rest"
  then have "poll_command w = Some (False, w1)" by simp
  from poll_command_shorter[OF this] \<open>work_packages w1 = package # rest\<close>
  have "length rest < length (work_packages w)" by simp
  then show "((env, do_work env (w1\<lparr>work_packages := rest\<rparr>) package), (env, w))
          \<in> measure (\<lambda>(env, w). length (work_packages w))"
    by (simp add: do_work_work_packages)
qed

declare run.simps [simp del]

subsection \<open>Notions used in the properties\<close>

text \<open>A result has its core values when none of the four mandatory tags is missing.\<close>

definition has_core_values :: "exif \<Rightarrow> bool" where
  "has_core_values result \<longleftrightarrow>
     result ''Directory'' \<noteq> None \<and> result ''FileName'' \<noteq> None \<and>
     result ''FileType'' \<noteq> None \<and> result ''FileSize'' \<noteq> None"

text \<open>
  A result with its core values hits the fault \<open>e\<close> when its file cannot be read for the
  hash (\<open>OSError\<close>), or when it can and the insert of its statement raises
  (\<open>DatabaseError\<close>).
\<close>

definition hits_fault :: "environment \<Rightarrow> string \<Rightarrow> exif \<Rightarrow> error \<Rightarrow> bool" where
  "hits_fault env val result e \<longleftrightarrow>
     has_core_values result \<and>
     (case file_path result of
        Inl e' \<Rightarrow> False
      | Inr path \<Rightarrow>
          (case read_file env path of
             None \<Rightarrow> e = OSError
           | Some bytes \<Rightarrow>
               insert_raises env
                 (insert_statement env (createInsert result val) result
                    (sha256_hexdigest env bytes)) \<and>
               e = DatabaseError))"

subsection \<open>A worker for the examples\<close>

text \<open>
  The extractor of the example gives one result for each path of the package, with all
  four core values, except for the path \<open>bare.txt\<close>, whose result lacks \<open>FileSize\<close>. The
  file \<open>/d/gone.txt\<close> cannot be read.
\<close>

definition example_result :: "string \<Rightarrow> exif" where
  "example_result file_name =
     (if file_name = ''bare.txt''
      then [''Directory'' \<mapsto> JString ''/d'', ''FileName'' \<mapsto> JString file_name,
            ''FileType'' \<mapsto> JString ''TXT'']
      else [''Directory'' \<mapsto> JString ''/d'', ''FileName'' \<mapsto> JString file_name,
            ''FileType'' \<mapsto> JString ''TXT'', ''FileSize'' \<mapsto> JString ''12 kB''])"

definition example_env :: environment where
  "example_env =
     \<lparr>exiftool = (\<lambda>package. Inr (map example_result package)),
      read_file = (\<lambda>path. if path = ''/d/gone.txt'' then None else Some ''abc''),
      sha256_hexdigest = (\<lambda>bytes. ''ba78''),
      json_dumps = (\<lambda>result. ''{}''),
      repr = (\<lambda>result. ''{}''),
      insert_raises = (\<lambda>statement. False)\<rparr>"

definition example_worker :: worker where
  "example_worker =
     \<lparr>tree_walk_id = 3, command_queue = [], work_packages = [[''a.txt'']], races = [],
      pool_closed = False, inserted = [], traced = [], stdout = [], critical = []\<rparr>"

text \<open>The statement that the example worker inserts for the file of a given name.\<close>

definition example_statement :: "string \<Rightarrow> string" where
  "example_statement file_name =
     insertin @ ''VALUES ('' @ apostrophe @ ''3'' @ apostrophe @ '', ''
       @ apostrophe @ ''/d'' @ apostrophe @ '', ''
       @ apostrophe @ file_name @ apostrophe @ '', ''
       @ apostrophe @ ''TXT'' @ apostrophe @ '', ''
       @ apostrophe @ ''12000'' @ apostrophe @ '', ''
       @ apostrophe @ ''-infinity'' @ apostrophe @ '', ''
       @ apostrophe @ ''-infinity'' @ apostrophe @ '', ''
       @ apostrophe @ ''-infinity'' @ apostrophe @ '', ''
       @ apostrophe @ ''{}'' @ apostrophe @ '', '' @ apostrophe @ ''ba78'' @ apostrophe @ '')''"

text \<open>
  A package whose second file cannot be read, a package whose second result lacks a core
  value, and the example worker with one more package waiting.
\<close>

definition faulty_package :: "string list" where
  "faulty_package = [''a.txt'', ''gone.txt'', ''c.txt'']"

definition waiting_worker :: worker where
  "waiting_worker = example_worker\<lparr>work_packages := [[''d.txt'']]\<rparr>"


text \<open>
  The example worker, paused, with \<open>stop\<close> as the next command, one package in the work
  queue and another worker holding the lock of the queue at the first \<open>get\<close> of
  \<open>_clean_up\<close>; and the surroundings in which every insert raises.
\<close>

definition stopped_worker :: worker where
  "stopped_worker =
     example_worker\<lparr>command_queue := [Some COMMAND_PAUSE, None, Some COMMAND_STOP],
                     work_packages := [[''d.txt'']], races := [Some 0]\<rparr>"

definition closed_pool_env :: environment where
  "closed_pool_env = example_env\<lparr>insert_raises := \<lambda>statement. True\<rparr>"

section \<open>Properties of the database operations\<close>

subsection \<open>The history query\<close>

lemma execute_select_ok:
  "execute NoFault (SelectDir path) con =
     (Inr (select_dir path (work con)), con\<lparr>statements := statements con @ [SelectDir path]\<rparr>)"
  by (simp add: execute_def)

lemma execute_select_fault:
  "execute (FaultAfter k) (SelectDir path) con =
     (Inl DatabaseError, con\<lparr>statements := statements con @ [SelectDir path]\<rparr>)"
  by (simp add: execute_def apply_statement_def truncate_statement_def)

lemma crawl_ids_select_dir:
  "set (map x_1 (select_dir path (work con))) = generations con path"
  by (simp add: select_dir_def generations_def rows_of_def x_1_def comp_def)

lemma filter_select_dir:
  "map x_0 (filter (\<lambda>x. x_1 x = g \<and> x_last x \<in> H) (select_dir path (work con))) =
   map fst (filter (\<lambda>row. crawl_id (snd row) = g \<and> file_hash (snd row) \<in> H) (rows_of con path))"
  by (simp add: select_dir_def rows_of_def x_0_def x_1_def x_last_def filter_map comp_def)

lemma check_directory_ok:
  "fst (check_directory NoFault con path hs) =
     (let G = generations con path in
      if G = {} then Inl ValueError
      else if G - {Max G} = {} then Inr []
      else Inr (map fst (filter (\<lambda>row. crawl_id (snd row) = Max (G - {Max G}) \<and> file_hash (snd row) \<in> set hs)
                   (rows_of con path))))"
  unfolding check_directory_def execute_select_ok
  by (simp add: Let_def crawl_ids_select_dir filter_select_dir del: set_map)

lemma check_directory_fault:
  "fst (check_directory (FaultAfter k) con path hs) = Inr []"
  unfolding check_directory_def execute_select_fault by simp

text \<open>
  Claim C10. When the history query succeeds and the table holds no row for the path,
  \<open>check_directory\<close> raises \<open>ValueError\<close>, from \<open>max\<close> of the empty set of crawl ids,
  and returns no list. The argument \<open>NoFault\<close> is the success of the query.
\<close>

theorem check_directory_no_history_raises:
  assumes "rows_of con path = []"
  shows "fst (check_directory NoFault con path current_hashes) = Inl ValueError"
  using assms by (simp add: check_directory_ok generations_def)

text \<open>
  Claim C7. When exactly one crawl generation is recorded for the path,
  \<open>check_directory\<close> returns the empty list, whether the history query succeeds or
  raises.
\<close>

theorem check_directory_single_generation:
  assumes "card (generations con path) = 1"
  shows "fst (check_directory flt con path current_hashes) = Inr []"
proof (cases flt)
  case NoFault
  from assms obtain g where g: "generations con path = {g}"
    by (auto simp: card_1_singleton_iff)
  show ?thesis unfolding NoFault by (simp add: check_directory_ok g)
next
  case (FaultAfter k)
  then show ?thesis by (simp add: check_directory_fault)
qed

subsection \<open>The baseline generation\<close>

lemma finite_generations: "finite (generations con path)"
  by (simp add: generations_def)

lemma second_highest_Max:
  assumes "finite S" "2 \<le> card S"
  shows "S - {Max S} \<noteq> {} \<and> second_highest S (Max (S - {Max S}))"
proof -
  from assms have ne: "S \<noteq> {}" by auto
  have "card (S - {Max S}) = card S - 1"
    using assms ne by (simp add: card_Diff_singleton)
  with assms have "card (S - {Max S}) \<noteq> 0" by simp
  then have ne': "S - {Max S} \<noteq> {}" by (metis card.empty)
  have fin': "finite (S - {Max S})" using assms by simp
  let ?g = "Max (S - {Max S})"
  have gin: "?g \<in> S - {Max S}" using Max_in[OF fin' ne'] .
  then have "?g \<in> S" "?g \<noteq> Max S" by auto
  moreover have "?g \<le> Max S" using \<open>?g \<in> S\<close> assms by simp
  moreover have "\<forall>h \<in> S. h < Max S \<longrightarrow> h \<le> ?g"
  proof (intro ballI impI)
    fix h assume "h \<in> S" "h < Max S"
    then have "h \<in> S - {Max S}" by auto
    then show "h \<le> ?g" using fin' by simp
  qed
  ultimately show ?thesis using ne' by (auto simp: second_highest_def)
qed

text \<open>
  The path \<open>/d\<close> of the example table has the generations 1, 2 and 3; the baseline is
  generation 2, and of its two rows only row 2 has a hash among the current ones.
\<close>

lemma rows_of_d: "rows_of example_con ''/d'' = [file_row 1 1 ''/d'' ''old.txt'' ''hashO'',
      file_row 2 2 ''/d'' ''a.txt'' ''hashA'',
      file_row 3 2 ''/d'' ''b.txt'' ''hashB'',
      file_row 5 3 ''/d'' ''a.txt'' ''hashA'']"
  by (simp add: rows_of_def example_con_def example_table_def file_row_def)

lemma generations_d: "generations example_con ''/d'' = {1, 2, 3}"
  by (auto simp add: generations_def rows_of_d file_row_def)

lemma candidate_ids_d: "candidate_ids example_con ''/d'' 2 [''hashA''] = [2]"
  by (simp add: candidate_ids_def rows_of_d file_row_def)

text \<open>
  The claim as it is written, without a word on the query, fails when the query raises:
  the path \<open>/d\<close> has three generations, the rows of its baseline with a current hash
  have the ids \<open>[2]\<close>, and the call returns the empty list, by \<open>except: return []\<close>.
\<close>

theorem check_directory_baseline_counterexample:
  "2 \<le> card (generations example_con ''/d'') \<and>
   second_highest (generations example_con ''/d'') 2 \<and>
   candidate_ids example_con ''/d'' 2 [''hashA''] = [2] \<and>
   fst (check_directory (FaultAfter 0) example_con ''/d'' [''hashA'']) = Inr []"
proof -
  have "second_highest (generations example_con ''/d'') 2"
    by (simp add: second_highest_def generations_d)
  then show ?thesis
    by (simp add: generations_d candidate_ids_d check_directory_fault)
qed

text \<open>
  Claim C1, amended. When at least two crawl generations are recorded for the path, there
  is a second-highest generation \<open>g\<close>. When the history query succeeds,
  \<open>check_directory\<close> returns, in the order of the table, the ids of exactly the rows of
  the path whose \<open>crawl_id\<close> is \<open>g\<close> and whose \<open>file_hash\<close> is among \<open>current_hashes\<close>;
  when the query raises, it returns the empty list. In both cases the id of a row of a
  generation older than \<open>g\<close> is not in the result (ids are a key of the table).
\<close>

theorem check_directory_baseline:
  assumes "2 \<le> card (generations con path)"
  shows "\<exists>g. second_highest (generations con path) g \<and>
           fst (check_directory flt con path current_hashes) =
             (case flt of
                NoFault \<Rightarrow> Inr (candidate_ids con path g current_hashes)
              | FaultAfter k \<Rightarrow> Inr []) \<and>
           (\<forall>ids. fst (check_directory flt con path current_hashes) = Inr ids \<longrightarrow>
              distinct (map fst (rows_of con path)) \<longrightarrow>
              (\<forall>row \<in> set (rows_of con path). crawl_id (snd row) < g \<longrightarrow> fst row \<notin> set ids))"
proof -
  let ?G = "generations con path"
  let ?g = "Max (?G - {Max ?G})"
  from second_highest_Max[OF finite_generations assms]
  have ne: "?G - {Max ?G} \<noteq> {}" and sh: "second_highest ?G ?g" by auto
  from assms have ne0: "?G \<noteq> {}" by auto
  have ok: "fst (check_directory NoFault con path current_hashes) =
             Inr (candidate_ids con path ?g current_hashes)"
    using ne ne0 by (simp add: check_directory_ok Let_def candidate_ids_def)
  have res: "fst (check_directory flt con path current_hashes) =
             (case flt of
                NoFault \<Rightarrow> Inr (candidate_ids con path ?g current_hashes)
              | FaultAfter k \<Rightarrow> Inr [])"
    using ok by (cases flt) (simp_all add: check_directory_fault)
  have old: "fst row \<notin> set ids"
    if i: "fst (check_directory flt con path current_hashes) = Inr ids"
      and d: "distinct (map fst (rows_of con path))"
      and r: "row \<in> set (rows_of con path)" and lt: "crawl_id (snd row) < ?g"
    for ids row
  proof
    assume m: "fst row \<in> set ids"
    have "set ids \<subseteq> set (candidate_ids con path ?g current_hashes)"
      using i res by (cases flt) auto
    with m obtain row' where r': "row' \<in> set (rows_of con path)"
      and c: "crawl_id (snd row') = ?g" and f: "fst row' = fst row"
      by (auto simp: candidate_ids_def)
    from d r r' f have "row' = row" by (meson distinct_map inj_onD)
    with c lt show False by simp
  qed
  show ?thesis using sh res old by blast
qed

text \<open>
  On the path \<open>/d\<close> the call returns the id 2 when the query succeeds and nothing when
  it raises.
\<close>

theorem check_directory_baseline_witness:
  "2 \<le> card (generations example_con ''/d'') \<and>
   fst (check_directory NoFault example_con ''/d'' [''hashA'']) = Inr [2] \<and>
   fst (check_directory (FaultAfter 0) example_con ''/d'' [''hashA'']) = Inr []"
proof -
  have h: "2 \<le> card (generations example_con ''/d'')" by (simp add: generations_d)
  from check_directory_baseline[OF h, of NoFault "[''hashA'']"]
  obtain g where g: "second_highest (generations example_con ''/d'') g"
    and r: "fst (check_directory NoFault example_con ''/d'' [''hashA'']) =
             Inr (candidate_ids example_con ''/d'' g [''hashA''])"
    by auto
  from g have "g = 2" by (auto simp: second_highest_def generations_d)
  with r have a: "fst (check_directory NoFault example_con ''/d'' [''hashA'']) = Inr [2]"
    by (simp add: candidate_ids_d)
  from check_directory_baseline[OF h, of "FaultAfter 0" "[''hashA'']"]
  have b: "fst (check_directory (FaultAfter 0) example_con ''/d'' [''hashA'']) = Inr []"
    by auto
  from h a b show ?thesis by simp
qed

text \<open>The path \<open>/e\<close> of the example table has rows of generation 2 only.\<close>

theorem check_directory_single_generation_witness:
  "card (generations example_con ''/e'') = 1 \<and>
   fst (check_directory (FaultAfter 0) example_con ''/e'' [''hashA'']) = Inr [] \<and>
   fst (check_directory NoFault example_con ''/e'' [''hashA'']) = Inr []"
proof -
  have h: "card (generations example_con ''/e'') = 1"
    by (simp add: generations_def rows_of_def example_con_def example_table_def file_row_def)
  from check_directory_single_generation[OF h] h show ?thesis by simp
qed

text \<open>The path \<open>/f\<close> of the example table has no row: the call raises.\<close>

theorem check_directory_no_history_raises_witness:
  "rows_of example_con ''/f'' = [] \<and>
   fst (check_directory NoFault example_con ''/f'' [''hashA'']) = Inl ValueError"
proof -
  have h: "rows_of example_con ''/f'' = []"
    by (simp add: rows_of_def example_con_def example_table_def file_row_def)
  from check_directory_no_history_raises[OF h] h show ?thesis by simp
qed

subsection \<open>What \<open>execute\<close> leaves unchanged\<close>

lemma stored_apply_statement [simp]: "stored (apply_statement st con) = stored con"
  by (simp add: apply_statement_def split: statement.splits)

lemma statements_apply_statement [simp]: "statements (apply_statement st con) = statements con"
  by (simp add: apply_statement_def split: statement.splits)

lemma log_apply_statement [simp]: "log (apply_statement st con) = log con"
  by (simp add: apply_statement_def split: statement.splits)

lemma printed_apply_statement [simp]: "printed (apply_statement st con) = printed con"
  by (simp add: apply_statement_def split: statement.splits)

lemma execute_stored: "stored (snd (execute flt st con)) = stored con"
  by (simp add: execute_def Let_def split: fault.splits statement.splits)

lemma execute_statements: "statements (snd (execute flt st con)) = statements con @ [st]"
  by (simp add: execute_def Let_def split: fault.splits statement.splits)

lemma execute_log: "log (snd (execute flt st con)) = log con"
  by (simp add: execute_def Let_def split: fault.splits statement.splits)

lemma execute_printed: "printed (snd (execute flt st con)) = printed con"
  by (simp add: execute_def Let_def split: fault.splits statement.splits)

lemma execute_fault_raises: "fst (execute (FaultAfter k) st con) = Inl DatabaseError"
  by (simp add: execute_def Let_def)

subsection \<open>The soft delete\<close>

text \<open>
  Claim C9. \<open>set_deleted\<close> with no id returns with the connection untouched: no statement
  is sent. It returns normally on every path. With ids it sends the one \<open>UPDATE\<close>; when
  that raises, the exception is printed, the warning is logged, the transaction is rolled
  back and the committed table is what it was, so no row is marked.
\<close>

theorem set_deleted_tolerates_failure:
  "set_deleted flt now con [] = (Inr (), con) \<and>
   fst (set_deleted flt now con file_ids) = Inr () \<and>
   (file_ids \<noteq> [] \<longrightarrow>
      statements (snd (set_deleted flt now con file_ids)) =
        statements con @ [UpdateDeleted file_ids now]) \<and>
   (file_ids \<noteq> [] \<longrightarrow> flt \<noteq> NoFault \<longrightarrow>
      stored (snd (set_deleted flt now con file_ids)) = stored con \<and>
      work (snd (set_deleted flt now con file_ids)) = stored con \<and>
      log (snd (set_deleted flt now con file_ids)) = log con @ [''Error updating file deletion''] \<and>
      printed (snd (set_deleted flt now con file_ids)) = printed con @ [error_text DatabaseError])"
proof -
  have empty: "set_deleted flt now con [] = (Inr (), con)"
    by (simp add: set_deleted_def)
  have returns: "fst (set_deleted flt now con file_ids) = Inr ()"
    by (simp add: set_deleted_def split: prod.splits sum.splits)
  obtain r con1 where ex: "execute flt (UpdateDeleted file_ids now) con = (r, con1)"
    by (cases "execute flt (UpdateDeleted file_ids now) con")
  have c1: "statements con1 = statements con @ [UpdateDeleted file_ids now]"
    "stored con1 = stored con" "log con1 = log con" "printed con1 = printed con"
    using execute_statements[of flt "UpdateDeleted file_ids now" con]
      execute_stored[of flt "UpdateDeleted file_ids now" con]
      execute_log[of flt "UpdateDeleted file_ids now" con]
      execute_printed[of flt "UpdateDeleted file_ids now" con] ex by simp_all
  have one: "statements (snd (set_deleted flt now con file_ids)) =
        statements con @ [UpdateDeleted file_ids now]" if "file_ids \<noteq> []"
    using that ex c1 by (cases r) (simp_all add: set_deleted_def commit_def rollback_def)
  have failed: "stored (snd (set_deleted flt now con file_ids)) = stored con \<and>
      work (snd (set_deleted flt now con file_ids)) = stored con \<and>
      log (snd (set_deleted flt now con file_ids)) = log con @ [''Error updating file deletion''] \<and>
      printed (snd (set_deleted flt now con file_ids)) = printed con @ [error_text DatabaseError]"
    if ne: "file_ids \<noteq> []" and f: "flt \<noteq> NoFault"
  proof -
    from f obtain k where k: "flt = FaultAfter k" by (cases flt) auto
    have r: "r = Inl DatabaseError"
      using execute_fault_raises[of k "UpdateDeleted file_ids now" con] ex k by simp
    have sd: "set_deleted flt now con file_ids =
        (Inr (), rollback (con1\<lparr>printed := printed con1 @ [error_text DatabaseError],
                                log := log con1 @ [''Error updating file deletion'']\<rparr>))"
      using ne ex r by (simp add: set_deleted_def)
    show ?thesis unfolding sd by (simp add: rollback_def c1)
  qed
  from empty returns one failed show ?thesis by blast
qed

text \<open>A server fault on the update of rows 2 and 3 of the example table.\<close>

theorem set_deleted_tolerates_failure_witness:
  "set_deleted (FaultAfter 1) ''now'' example_con [] = (Inr (), example_con) \<and>
   fst (set_deleted (FaultAfter 1) ''now'' example_con [2, 3]) = Inr () \<and>
   stored (snd (set_deleted (FaultAfter 1) ''now'' example_con [2, 3])) = example_table \<and>
   work (snd (set_deleted (FaultAfter 1) ''now'' example_con [2, 3])) = example_table \<and>
   statements (snd (set_deleted (FaultAfter 1) ''now'' example_con [2, 3])) =
     [UpdateDeleted [2, 3] ''now'']"
  using set_deleted_tolerates_failure[of "FaultAfter 1" "''now''" example_con "[2, 3]"]
  by (simp add: example_con_def)

subsection \<open>The batched insert\<close>

lemma mogrify_all_eq:
  "mogrify_all bad vs = (if \<exists>v \<in> set vs. bad v then Inl ProgrammingError else Inr vs)"
  by (induction vs) auto

lemma mogrify_all_Inr:
  "mogrify_all bad vs = Inr q \<longleftrightarrow> (\<forall>v \<in> set vs. \<not> bad v) \<and> q = vs"
  by (auto simp: mogrify_all_eq)

lemma mogrify_all_Inl:
  "mogrify_all bad vs = Inl e \<longleftrightarrow> (\<exists>v \<in> set vs. bad v) \<and> e = ProgrammingError"
  by (auto simp: mogrify_all_eq)

lemma execute_insert_ok:
  "vs \<noteq> [] \<Longrightarrow> execute NoFault (InsertFiles vs) con =
     (Inr [], con\<lparr>statements := statements con @ [InsertFiles vs],
                  work := work con @ assign_ids (next_id con) vs,
                  next_id := next_id con + int (length vs)\<rparr>)"
  by (simp add: execute_def apply_statement_def)

lemma execute_insert_empty:
  "fst (execute flt (InsertFiles []) con) = Inl DatabaseError"
  by (simp add: execute_def)

lemma insert_construct_failure:
  assumes "\<exists>v \<in> set vs. bad v"
  shows "insert_new_record_files bad flt con vs = (Inl ProgrammingError, con)"
proof -
  from assms have "mogrify_all bad vs = Inl ProgrammingError"
    by (simp add: mogrify_all_Inl)
  then show ?thesis by (simp add: insert_new_record_files_def)
qed

lemma insert_execute_failure:
  assumes ok: "\<forall>v \<in> set vs. \<not> bad v" and f: "flt \<noteq> NoFault \<or> vs = []"
  shows "\<exists>con1. insert_new_record_files bad flt con vs =
           (Inl DatabaseError,
            con1\<lparr>log := log con @ [''Error inserting new files into the database''],
                 work := stored con\<rparr>) \<and>
           stored con1 = stored con \<and> statements con1 = statements con @ [InsertFiles vs]"
proof -
  from ok have m: "mogrify_all bad vs = Inr vs" by (simp add: mogrify_all_Inr)
  obtain r con1 where ex: "execute flt (InsertFiles vs) con = (r, con1)"
    by (cases "execute flt (InsertFiles vs) con")
  have r: "r = Inl DatabaseError"
  proof (cases "vs = []")
    case True
    then show ?thesis using execute_insert_empty[of flt con] ex by simp
  next
    case False
    with f obtain k where "flt = FaultAfter k" by (cases flt) auto
    then show ?thesis using execute_fault_raises[of k "InsertFiles vs" con] ex by simp
  qed
  have c1: "statements con1 = statements con @ [InsertFiles vs]"
    "stored con1 = stored con" "log con1 = log con"
    using execute_statements[of flt "InsertFiles vs" con]
      execute_stored[of flt "InsertFiles vs" con]
      execute_log[of flt "InsertFiles vs" con] ex by simp_all
  have "insert_new_record_files bad flt con vs =
          (Inl DatabaseError,
           con1\<lparr>log := log con @ [''Error inserting new files into the database''],
                work := stored con\<rparr>)"
    using m ex r c1 by (simp add: insert_new_record_files_def rollback_def)
  with c1 show ?thesis by blast
qed

lemma insert_success:
  assumes ok: "\<forall>v \<in> set vs. \<not> bad v" and ne: "vs \<noteq> []"
  shows "insert_new_record_files bad NoFault con vs =
           (Inr (), con\<lparr>statements := statements con @ [InsertFiles vs],
                        work := work con @ assign_ids (next_id con) vs,
                        next_id := next_id con + int (length vs),
                        stored := work con @ assign_ids (next_id con) vs\<rparr>)"
proof -
  from ok have m: "mogrify_all bad vs = Inr vs" by (simp add: mogrify_all_Inr)
  show ?thesis
    using m ne by (simp add: insert_new_record_files_def execute_insert_ok commit_def)
qed

text \<open>
  Claim C3. \<open>insert_new_record_files\<close> sends at most one statement, and exactly the one
  multi-row \<open>INSERT\<close> of the whole batch whenever every tuple can be rendered. When a
  failure occurs, in rendering or in \<open>execute\<close>, the call raises the error, the committed
  table is unchanged, and a connection that had nothing pending has nothing pending
  afterwards. Otherwise the call returns and the whole batch is committed.
\<close>

theorem insert_new_record_files_atomic:
  "(case insert_new_record_files cannot_adapt flt con insert_values of
      (r, con') \<Rightarrow>
        (statements con' = statements con \<or>
         statements con' = statements con @ [InsertFiles insert_values]) \<and>
        (\<not> list_ex cannot_adapt insert_values \<longrightarrow>
           statements con' = statements con @ [InsertFiles insert_values]) \<and>
        (failure_occurs cannot_adapt flt insert_values \<longrightarrow>
           r = Inl (if list_ex cannot_adapt insert_values then ProgrammingError
                    else DatabaseError) \<and>
           stored con' = stored con \<and>
           (work con = stored con \<longrightarrow> work con' = stored con)) \<and>
        (\<not> failure_occurs cannot_adapt flt insert_values \<longrightarrow>
           r = Inr () \<and>
           stored con' = work con @ assign_ids (next_id con) insert_values \<and>
           work con' = stored con'))"
proof (cases "\<exists>v \<in> set insert_values. cannot_adapt v")
  case True
  then have "list_ex cannot_adapt insert_values" by (simp add: list_ex_iff)
  with insert_construct_failure[OF True, of flt con] show ?thesis
    by (simp add: failure_occurs_def)
next
  case False
  then have ok: "\<forall>v \<in> set insert_values. \<not> cannot_adapt v" by simp
  then have nex: "\<not> list_ex cannot_adapt insert_values" by (simp add: list_ex_iff)
  show ?thesis
  proof (cases "flt \<noteq> NoFault \<or> insert_values = []")
    case True
    from insert_execute_failure[OF ok True, of con] obtain con1 where
      "insert_new_record_files cannot_adapt flt con insert_values =
         (Inl DatabaseError,
          con1\<lparr>log := log con @ [''Error inserting new files into the database''],
               work := stored con\<rparr>)"
      "stored con1 = stored con" "statements con1 = statements con @ [InsertFiles insert_values]"
      by blast
    with True nex show ?thesis by (auto simp: failure_occurs_def)
  next
    case False
    then have "flt = NoFault" "insert_values \<noteq> []" by auto
    with insert_success[OF ok, of con] nex show ?thesis
      by (simp add: failure_occurs_def)
  qed
qed

text \<open>
  A batch of two rows on the example connection: with a fault after the first row nothing
  is committed; without a fault both rows are.
\<close>

theorem insert_new_record_files_atomic_witness:
  "failure_occurs (\<lambda>v. False) (FaultAfter 1) example_batch \<and>
   fst (insert_new_record_files (\<lambda>v. False) (FaultAfter 1) example_con example_batch) =
     Inl DatabaseError \<and>
   stored (snd (insert_new_record_files (\<lambda>v. False) (FaultAfter 1) example_con example_batch)) =
     example_table \<and>
   work (snd (insert_new_record_files (\<lambda>v. False) (FaultAfter 1) example_con example_batch)) =
     example_table \<and>
   statements (snd (insert_new_record_files (\<lambda>v. False) (FaultAfter 1) example_con example_batch)) =
     [InsertFiles example_batch] \<and>
   \<not> failure_occurs (\<lambda>v. False) NoFault example_batch \<and>
   stored (snd (insert_new_record_files (\<lambda>v. False) NoFault example_con example_batch)) =
     example_table @ assign_ids 6 example_batch"
proof -
  have f: "failure_occurs (\<lambda>v. False) (FaultAfter 1) example_batch"
    by (simp add: failure_occurs_def)
  have nf: "\<not> failure_occurs (\<lambda>v. False) NoFault example_batch"
    by (simp add: failure_occurs_def example_batch_def)
  have na: "\<not> list_ex (\<lambda>v. False) example_batch"
    by (simp add: example_batch_def)
  have c: "stored example_con = example_table" "work example_con = example_table"
    "statements example_con = []" "next_id example_con = 6"
    by (simp_all add: example_con_def)
  show ?thesis
    using insert_new_record_files_atomic[where cannot_adapt = "\<lambda>v. False" and flt = "FaultAfter 1"
        and con = example_con and insert_values = example_batch]
      insert_new_record_files_atomic[where cannot_adapt = "\<lambda>v. False" and flt = NoFault
        and con = example_con and insert_values = example_batch]
      f nf na c
    by (auto split: prod.splits)
qed

section \<open>Properties of the worker\<close>

subsection \<open>Decimal text and \<open>split\<close>\<close>

lemma digits_small: "n < 10 \<Longrightarrow> digits n = [digit_char n]"
  by (subst digits.simps) simp

lemma digits_large: "\<not> n < 10 \<Longrightarrow> digits n = digits (n div 10) @ [digit_char (n mod 10)]"
  by (subst digits.simps) simp

lemma split_blank_nonempty: "split_blank s \<noteq> []"
  by (induction s) (auto split: list.splits)

lemma split_blank_prefix:
  "CHR '' '' \<notin> set ns \<Longrightarrow> split_blank (ns @ CHR '' '' # rest) = ns # split_blank rest"
  by (induction ns) auto

lemma hd_split_blank:
  "s \<noteq> [] \<Longrightarrow> hd s \<noteq> CHR '' '' \<Longrightarrow> hd (split_blank s) \<noteq> [] \<and> hd (hd (split_blank s)) = hd s"
  by (cases s) (auto split: list.splits)

lemma digit_char_is_digit: "d < 10 \<Longrightarrow> is_digit (digit_char d)"
  by (simp add: is_digit_def digit_char_def of_char_of)

lemma digit_val_digit_char: "d < 10 \<Longrightarrow> digit_val (digit_char d) = d"
  by (simp add: digit_val_def digit_char_def of_char_of)

lemma is_digit_not_space: "is_digit c \<Longrightarrow> \<not> is_space c"
  by (auto simp: is_digit_def is_space_def)

lemma is_digit_not_sign: "is_digit c \<Longrightarrow> c \<noteq> CHR ''-'' \<and> c \<noteq> CHR ''+'' \<and> c \<noteq> CHR '' ''"
  by (auto simp: is_digit_def)

lemma digits_all_digit: "\<forall>c \<in> set (digits n). is_digit c"
proof (induction n rule: digits.induct)
  case (1 n)
  show ?case
  proof (cases "n < 10")
    case True
    then show ?thesis by (simp add: digits.simps[of n] digit_char_is_digit)
  next
    case False
    with 1 show ?thesis by (simp add: digits.simps[of n] digit_char_is_digit)
  qed
qed

lemma digits_nonempty: "digits n \<noteq> []"
  by (subst digits.simps) simp

lemma digits_value_digits:
  "digits_value acc (digits n @ cs) = digits_value (acc * 10 ^ length (digits n) + n) cs"
proof (induction n arbitrary: acc cs rule: digits.induct)
  case (1 n)
  show ?case
  proof (cases "n < 10")
    case True
    then show ?thesis
      by (simp add: digits.simps[of n] digit_char_is_digit digit_val_digit_char mult.commute)
  next
    case False
    have d: "digits n = digits (n div 10) @ [digit_char (n mod 10)]"
      using False by (subst digits.simps) simp
    have "digits_value acc (digits n @ cs) =
          digits_value acc (digits (n div 10) @ (digit_char (n mod 10) # cs))"
      by (simp add: d)
    also have "\<dots> = digits_value (acc * 10 ^ length (digits (n div 10)) + n div 10)
                       (digit_char (n mod 10) # cs)"
      using "1.IH"[OF False] by simp
    also have "\<dots> = digits_value (10 * (acc * 10 ^ length (digits (n div 10)) + n div 10) + n mod 10) cs"
      by (simp add: digit_char_is_digit digit_val_digit_char)
    also have "10 * (acc * 10 ^ length (digits (n div 10)) + n div 10) + n mod 10 =
               acc * 10 ^ length (digits n) + n"
      by (simp add: d algebra_simps)
    finally show ?thesis .
  qed
qed

lemma parse_digits_digits: "parse_digits (digits n) = Some n"
proof -
  obtain c cs where ds: "digits n = c # cs" using digits_nonempty by (cases "digits n") auto
  then have "is_digit c" using digits_all_digit[of n] by simp
  moreover have "digits_value 0 (digits n) = Some n"
    using digits_value_digits[of 0 n "[]"] by simp
  ultimately show ?thesis by (simp add: parse_digits_def ds)
qed

lemma strip_no_space:
  assumes "s \<noteq> []" "\<not> is_space (hd s)" "\<not> is_space (last s)"
  shows "strip s = s"
proof -
  from assms have a: "dropWhile is_space s = s" by (cases s) auto
  from assms have "rev s \<noteq> []" "\<not> is_space (hd (rev s))" by (simp_all add: hd_rev)
  then have "dropWhile is_space (rev s) = rev s" by (cases "rev s") auto
  with a show ?thesis by (simp add: strip_def)
qed

lemma strip_digits: "strip (digits n) = digits n"
proof (rule strip_no_space)
  show "digits n \<noteq> []" by (rule digits_nonempty)
  then show "\<not> is_space (hd (digits n))" "\<not> is_space (last (digits n))"
    using digits_all_digit[of n] by (auto intro!: is_digit_not_space)
qed

lemma strip_minus_digits: "strip (CHR ''-'' # digits n) = CHR ''-'' # digits n"
proof (rule strip_no_space)
  show "\<not> is_space (hd (CHR ''-'' # digits n))" by (simp add: is_space_def)
  show "\<not> is_space (last (CHR ''-'' # digits n))"
    using digits_all_digit[of n] digits_nonempty[of n] by (auto intro!: is_digit_not_space)
qed simp

lemma py_int_py_str: "py_int (py_str n) = Inr n"
proof (cases "n < 0")
  case True
  then show ?thesis
    by (simp add: py_int_def py_str_def strip_minus_digits parse_digits_digits)
next
  case False
  obtain c cs where ds: "digits (nat n) = c # cs"
    using digits_nonempty by (cases "digits (nat n)") auto
  then have "is_digit c" using digits_all_digit[of "nat n"] by simp
  then have "c \<noteq> CHR ''-''" "c \<noteq> CHR ''+''" using is_digit_not_sign by auto
  moreover have "parse_digits (c # cs) = Some (nat n)"
    using parse_digits_digits[of "nat n"] ds by simp
  moreover have "strip (c # cs) = c # cs" using strip_digits[of "nat n"] ds by simp
  ultimately show ?thesis using False by (simp add: py_int_def py_str_def ds)
qed

lemma py_str_no_blank: "CHR '' '' \<notin> set (py_str n)"
  using digits_all_digit is_digit_not_sign by (auto simp: py_str_def)

subsection \<open>\<open>getSize\<close>\<close>

text \<open>
  Claim C8. For a size string made of the decimal text of an integer \<open>n\<close>, one blank and
  a unit that is not empty and does not start with a blank, \<open>getSize\<close> returns the
  decimal text of \<open>n\<close> times the factor of the unit's first character: \<open>10\<^sup>3\<close> for \<open>k\<close>,
  \<open>10\<^sup>6\<close> for \<open>m\<close>, \<open>10\<^sup>9\<close> for \<open>g\<close>, \<open>10\<^sup>1\<^sup>2\<close> for \<open>t\<close>, and 1 for every other
  character. The factors are powers of 1000.
\<close>

theorem getSize_base_1000:
  assumes "unit \<noteq> []" and "hd unit \<noteq> CHR '' ''"
  shows "getSize (py_str n @ '' '' @ unit) =
           Inr (py_str (n * (if hd unit = CHR ''k'' then 10 ^ 3
                             else if hd unit = CHR ''m'' then 10 ^ 6
                             else if hd unit = CHR ''g'' then 10 ^ 9
                             else if hd unit = CHR ''t'' then 10 ^ 12
                             else 1)))"
proof -
  have sp: "split_blank (py_str n @ CHR '' '' # unit) = py_str n # split_blank unit"
    using split_blank_prefix[OF py_str_no_blank, of n unit] by simp
  obtain u us where u: "split_blank unit = u # us"
    using split_blank_nonempty[of unit] by (cases "split_blank unit") auto
  from hd_split_blank[OF assms] u have u0: "u \<noteq> []" "hd u = hd unit" by simp_all
  then have i0: "py_index u 0 = Inr (hd unit)"
    by (cases u) (simp_all add: py_index_def)
  show ?thesis
    by (simp add: getSize_def sp u py_index_def[of "_ # _"] i0 py_int_py_str Let_def)
qed

text \<open>
  \<open>12 kB\<close> is 12000 bytes; the capital \<open>M\<close> of \<open>3 MB\<close> is none of the four letters, so
  the factor is 1.
\<close>

theorem getSize_base_1000_witness:
  "''kB'' \<noteq> [] \<and> hd ''kB'' \<noteq> CHR '' '' \<and> getSize ''12 kB'' = Inr ''12000'' \<and>
   getSize ''3 MB'' = Inr ''3''"
proof -
  have a: "py_str 12 = ''12''" "py_str (12 * 10 ^ 3) = ''12000''" "py_str 3 = ''3''"
    by (simp_all add: py_str_def digits_small digits_large digit_char_def char_of_eq_iff)
  from getSize_base_1000[of "''kB''" 12] getSize_base_1000[of "''MB''" 3] a
  show ?thesis by simp
qed

subsection \<open>Commands\<close>

lemma drain_quiet: "drain [] packages = (None, [], [])"
  by (induction packages) auto

text \<open>Without interference \<open>_clean_up\<close> closes the pool and leaves the work queue empty.\<close>

lemma clean_up_quiet:
  assumes "races w = []"
  shows "clean_up w = (None, w\<lparr>pool_closed := True, work_packages := []\<rparr>)"
proof -
  have "w\<lparr>pool_closed := True, races := [], work_packages := []\<rparr> =
        w\<lparr>pool_closed := True, work_packages := []\<rparr>"
    using assms by (cases w) simp
  then show ?thesis using assms by (simp add: clean_up_def Let_def drain_quiet)
qed

text \<open>
  A \<open>get(False)\<close> of the loop that loses against another worker ends \<open>_clean_up\<close> with
  \<open>Empty\<close>: the pool is closed and the queue is not emptied by this worker.
\<close>

lemma clean_up_lost:
  assumes "races w = Some n # rs" and "work_packages w = package # rest"
  shows "clean_up w =
           (Some Empty, w\<lparr>pool_closed := True, races := rs,
                           work_packages := drop n (package # rest)\<rparr>)"
  using assms by (simp add: clean_up_def Let_def)

text \<open>
  What \<open>pause\<close> does: when no command arrives, \<open>run_command\<close> never returns; when the
  command \<open>c\<close> arrives, the result is that of \<open>run_command\<close> on \<open>c\<close>. So \<open>unpause\<close>
  returns \<open>False\<close> with nothing but the command queue changed, and, when no other worker
  interferes with \<open>_clean_up\<close>, \<open>stop\<close> returns \<open>True\<close> with the pool closed and the work
  queue empty, and so does any other command, after the critical message.
\<close>

lemma pause_dispatches_next_command:
  "(get_blocking (command_queue w) = None \<longrightarrow> run_command w COMMAND_PAUSE = None) \<and>
   (\<forall>c q. get_blocking (command_queue w) = Some (c, q) \<longrightarrow>
      run_command w COMMAND_PAUSE = run_command (w\<lparr>command_queue := q\<rparr>) c \<and>
      (c = COMMAND_UNPAUSE \<longrightarrow>
         run_command w COMMAND_PAUSE = Some (Inr False, w\<lparr>command_queue := q\<rparr>)) \<and>
      (c = COMMAND_STOP \<and> races w = [] \<longrightarrow>
         run_command w COMMAND_PAUSE =
           Some (Inr True, w\<lparr>command_queue := q, pool_closed := True, work_packages := []\<rparr>)) \<and>
      (c \<noteq> COMMAND_UNPAUSE \<and> c \<noteq> COMMAND_PAUSE \<and> c \<noteq> COMMAND_STOP \<and> races w = [] \<longrightarrow>
         run_command w COMMAND_PAUSE =
           Some (Inr True, w\<lparr>command_queue := q,
                              critical := critical w @ [invalid_command c],
                              pool_closed := True, work_packages := []\<rparr>)))"
proof -
  have blocked: "run_command w COMMAND_PAUSE = None" if "get_blocking (command_queue w) = None"
    using that by (simp add: run_command_pause)
  have next_cmd: "run_command w COMMAND_PAUSE = run_command (w\<lparr>command_queue := q\<rparr>) c"
    if "get_blocking (command_queue w) = Some (c, q)" for c q
    using that by (simp add: run_command_pause)
  have unpause: "run_command w COMMAND_PAUSE = Some (Inr False, w\<lparr>command_queue := q\<rparr>)"
    if "get_blocking (command_queue w) = Some (c, q)" "c = COMMAND_UNPAUSE" for c q
    using that by (simp add: run_command_pause run_command_unpause)
  have stop: "run_command w COMMAND_PAUSE =
           Some (Inr True, w\<lparr>command_queue := q, pool_closed := True, work_packages := []\<rparr>)"
    if "get_blocking (command_queue w) = Some (c, q)" "c = COMMAND_STOP \<and> races w = []" for c q
    using that by (simp add: run_command_pause run_command_stop clean_up_quiet)
  have invalid: "run_command w COMMAND_PAUSE =
           Some (Inr True, w\<lparr>command_queue := q,
                              critical := critical w @ [invalid_command c],
                              pool_closed := True, work_packages := []\<rparr>)"
    if "get_blocking (command_queue w) = Some (c, q)"
      "c \<noteq> COMMAND_UNPAUSE \<and> c \<noteq> COMMAND_PAUSE \<and> c \<noteq> COMMAND_STOP \<and> races w = []" for c q
    using that by (simp add: run_command_pause run_command_invalid clean_up_quiet)
  from blocked next_cmd unpause stop invalid show ?thesis by blast
qed

subsection \<open>The end of \<open>run\<close>\<close>

lemma process_results_keeps:
  "command_queue (snd (process_results env val results w)) = command_queue w \<and>
   pool_closed (snd (process_results env val results w)) = pool_closed w \<and>
   tree_walk_id (snd (process_results env val results w)) = tree_walk_id w \<and>
   critical (snd (process_results env val results w)) = critical w"
  by (induction env val results w rule: process_results.induct)
     (simp_all add: Let_def split: sum.splits option.splits)

lemma do_work_keeps:
  "command_queue (do_work env w package) = command_queue w \<and>
   pool_closed (do_work env w package) = pool_closed w \<and>
   tree_walk_id (do_work env w package) = tree_walk_id w \<and>
   critical (do_work env w package) = critical w"
proof -
  have "command_queue (snd (do_work_try env w package)) = command_queue w \<and>
   pool_closed (snd (do_work_try env w package)) = pool_closed w \<and>
   tree_walk_id (snd (do_work_try env w package)) = tree_walk_id w \<and>
   critical (snd (do_work_try env w package)) = critical w"
    by (simp add: do_work_try_def process_results_keeps split: sum.splits)
  then show ?thesis
    by (cases "do_work_try env w package") (simp add: do_work_def split: option.splits)
qed

lemma poll_command_nothing:
  "command_queue w = [] \<Longrightarrow> poll_command w = Some (False, w)"
  by (simp add: poll_command_def)

text \<open>
  When a command ends the loop, \<open>_clean_up\<close> has run: the pool is closed and the work
  queue is empty.
\<close>

lemma poll_command_break_cleans:
  assumes "poll_command w = Some (True, w')"
  shows "pool_closed w' \<and> work_packages w' = []"
proof (cases "get_nowait (command_queue w)")
  case (Pair x q)
  with assms obtain command r where
    r: "run_command (w\<lparr>command_queue := q\<rparr>) command = Some (r, w')"
    and b: "r = Inr True \<or> (\<exists>e. r = Inl e \<and> e \<noteq> Empty)"
    by (cases x) (auto simp: poll_command_def split: option.splits sum.splits)
  from run_command_result[OF r] b show ?thesis by auto
qed

text \<open>A worker that gets no command finishes, with its pool as it was.\<close>

lemma run_without_commands:
  assumes "command_queue w = []"
  shows "\<exists>w'. run env w = Some w' \<and> pool_closed w' = pool_closed w \<and> work_packages w' = []"
  using assms
proof (induction ps \<equiv> "work_packages w" arbitrary: w)
  case Nil
  then have "run env w = Some w"
    by (subst run.simps) (simp add: poll_command_nothing)
  with Nil show ?case by simp
next
  case (Cons package rest)
  let ?w = "do_work env (w\<lparr>work_packages := rest\<rparr>) package"
  from Cons.hyps(2) Cons.prems have step: "run env w = run env ?w"
    by (subst run.simps) (simp add: poll_command_nothing[OF Cons.prems] flip: Cons.hyps(2))
  have "rest = work_packages ?w" by (simp add: do_work_work_packages)
  moreover have "command_queue ?w = []" "pool_closed ?w = pool_closed w"
    using Cons.prems by (simp_all add: do_work_keeps)
  ultimately obtain w' where
    "run env ?w = Some w' \<and> pool_closed w' = pool_closed w \<and> work_packages w' = []"
    using Cons.hyps(1)[of ?w] by auto
  with step show ?case by simp
qed

text \<open>
  Claim C2. The claim asks for the release of the connections on every way of finishing.
  The loop of \<open>run\<close> leaves by \<open>break\<close> when the work queue is empty, without a call of
  \<open>_clean_up\<close>: a worker that gets no command finishes, with the work queue empty and
  its pool still open. The two other ways, \<open>stop\<close> and an unknown command, do close it
  (\<open>poll_command_break_cleans\<close>).
\<close>

theorem run_exhaustion_leaves_pool_open:
  assumes "command_queue w = []" and "\<not> pool_closed w"
  shows "\<exists>w'. run env w = Some w' \<and> \<not> pool_closed w' \<and> work_packages w' = []"
  using assms
proof (induction ps \<equiv> "work_packages w" arbitrary: w)
  case Nil
  then have "run env w = Some w"
    by (subst run.simps) (simp add: poll_command_nothing)
  with Nil show ?case by simp
next
  case (Cons package rest)
  let ?w = "do_work env (w\<lparr>work_packages := rest\<rparr>) package"
  from Cons.hyps(2) Cons.prems have step: "run env w = run env ?w"
    by (subst run.simps) (simp add: poll_command_nothing[OF Cons.prems(1)] flip: Cons.hyps(2))
  have "rest = work_packages ?w" by (simp add: do_work_work_packages)
  moreover have "command_queue ?w = []" "\<not> pool_closed ?w"
    using Cons.prems by (simp_all add: do_work_keeps)
  ultimately obtain w' where "run env ?w = Some w' \<and> \<not> pool_closed w' \<and> work_packages w' = []"
    using Cons.hyps(1) by blast
  with step show ?case by simp
qed

text \<open>The definitions that evaluate the example.\<close>

lemmas example_eval =
  do_work_def do_work_try_def example_env_def example_result_def Let_def
  values_prefix_def createInsert_def mandatory_def text_piece_def size_piece_def date_piece_def
  file_path_def subscript_def insert_statement_def str_json_def hash_and_insert_def
  example_statement_def getSize_def py_index_def py_int_def strip_def is_space_def
  parse_digits_def is_digit_def digit_val_def py_str_def digits_small digits_large
  digit_char_def char_of_eq_iff

text \<open>
  The example worker has one package and gets no command: it inserts the file, finds the
  work queue empty and finishes with \<open>pool_closed = False\<close>.
\<close>
lemma example_run:
  "run example_env example_worker =
     Some (example_worker\<lparr>work_packages := [], inserted := [example_statement ''a.txt''],
                          traced := [''/d'']\<rparr>)"
  apply (subst run.simps)
  apply (simp add: poll_command_def example_worker_def)
  apply (subst run.simps)
  apply (simp add: poll_command_def example_eval)
  done

theorem run_exhaustion_leaves_pool_open_witness:
  "command_queue example_worker = [] \<and> pool_closed example_worker = False \<and>
   run example_env example_worker =
     Some (example_worker\<lparr>work_packages := [], inserted := [example_statement ''a.txt''],
                          traced := [''/d'']\<rparr>) \<and>
   pool_closed (example_worker\<lparr>work_packages := [], inserted := [example_statement ''a.txt''],
                               traced := [''/d'']\<rparr>) = False"
proof -
  have a: "command_queue example_worker = []" and b: "\<not> pool_closed example_worker"
    by (simp_all add: example_worker_def)
  from run_exhaustion_leaves_pool_open[OF a b, of example_env] example_run a b
  show ?thesis by simp
qed

subsection \<open>A stop that does not stop\<close>

text \<open>
  When no other worker interferes, a pause followed by \<open>stop\<close> or by an unknown command
  does end the worker, with the pool closed and the work queue empty.
\<close>

lemma pause_then_stop_finishes:
  assumes "command_queue w = Some COMMAND_PAUSE # q0"
    and "get_blocking q0 = Some (c, q)"
    and "c \<noteq> COMMAND_UNPAUSE" and "c \<noteq> COMMAND_PAUSE"
    and "races w = []"
  shows "run env w =
           Some (w\<lparr>command_queue := q,
                   critical := (if c = COMMAND_STOP then critical w
                                else critical w @ [invalid_command c]),
                   pool_closed := True, work_packages := []\<rparr>)"
proof -
  have "run_command (w\<lparr>command_queue := q\<rparr>) c =
          Some (Inr True, w\<lparr>command_queue := q,
                   critical := (if c = COMMAND_STOP then critical w
                                else critical w @ [invalid_command c]),
                   pool_closed := True, work_packages := []\<rparr>)"
    using assms(3,4,5)
    by (cases "c = COMMAND_STOP") (simp_all add: run_command_stop run_command_invalid clean_up_quiet)
  then have "poll_command w =
          Some (True, w\<lparr>command_queue := q,
                   critical := (if c = COMMAND_STOP then critical w
                                else critical w @ [invalid_command c]),
                   pool_closed := True, work_packages := []\<rparr>)"
    using assms(1,2) by (simp add: poll_command_def run_command_pause)
  then show ?thesis by (subst run.simps) simp
qed

text \<open>
  Claim C4. The claim says that a pause followed by \<open>stop\<close>, or by an unknown command,
  ends the worker. In the source \<open>_clean_up\<close> asks \<open>empty()\<close> and then calls
  \<open>get(False)\<close> on the queue it shares with the other workers; when that \<open>get\<close> loses
  against another worker it raises \<open>Empty\<close>, \<open>return True\<close> is not reached, and the
  \<open>except Empty: pass\<close> of \<open>run\<close>, written for the look at the command queue, swallows
  the exception. So when the worker is paused, the next command is \<open>stop\<close> or an unknown
  one, and the first \<open>get\<close> of \<open>_clean_up\<close> loses: \<open>run_command\<close> raises \<open>Empty\<close> with
  the pool closed, the loop of \<open>run\<close> is not left, and \<open>run\<close> goes on with the packages
  the other workers have left, on a closed pool. When no further command arrives it
  then finishes by the empty work queue.
\<close>

theorem stop_while_paused_can_be_lost:
  assumes "command_queue w = Some COMMAND_PAUSE # q0"
    and "get_blocking q0 = Some (c, q)"
    and "c \<noteq> COMMAND_UNPAUSE" and "c \<noteq> COMMAND_PAUSE"
    and "work_packages w = package # rest"
    and "races w = Some n # rs"
  shows "\<exists>w1. run_command (w\<lparr>command_queue := q0\<rparr>) COMMAND_PAUSE = Some (Inl Empty, w1) \<and>
              poll_command w = Some (False, w1) \<and>
              pool_closed w1 \<and> command_queue w1 = q \<and>
              work_packages w1 = drop n (package # rest) \<and>
              inserted w1 = inserted w \<and> stdout w1 = stdout w \<and>
              run env w =
                (case drop n (package # rest) of
                   [] \<Rightarrow> Some w1
                 | p # ps \<Rightarrow> run env (do_work env (w1\<lparr>work_packages := ps\<rparr>) p)) \<and>
              (q = [] \<longrightarrow> (\<exists>w'. run env w = Some w' \<and> pool_closed w' \<and> work_packages w' = []))"
proof -
  let ?w = "w\<lparr>command_queue := q\<rparr>"
  let ?wc = "if c = COMMAND_STOP then ?w
             else ?w\<lparr>critical := critical ?w @ [invalid_command c]\<rparr>"
  let ?w1 = "?wc\<lparr>pool_closed := True, races := rs, work_packages := drop n (package # rest)\<rparr>"
  have lost: "clean_up ?wc = (Some Empty, ?w1)"
    using clean_up_lost[of ?wc n rs package rest] assms(5,6) by simp
  have rc: "run_command ?w c = Some (Inl Empty, ?w1)"
  proof (cases "c = COMMAND_STOP")
    case True
    with lost show ?thesis by (simp add: run_command_stop)
  next
    case False
    with lost assms(3,4) show ?thesis by (simp add: run_command_invalid)
  qed
  have pause: "run_command (w\<lparr>command_queue := q0\<rparr>) COMMAND_PAUSE = Some (Inl Empty, ?w1)"
    using rc assms(2) by (simp add: run_command_pause)
  have poll: "poll_command w = Some (False, ?w1)"
    using pause assms(1) by (simp add: poll_command_def)
  have props: "pool_closed ?w1" "command_queue ?w1 = q"
    "work_packages ?w1 = drop n (package # rest)" "inserted ?w1 = inserted w"
    "stdout ?w1 = stdout w"
    by simp_all
  have step: "run env w =
                (case drop n (package # rest) of
                   [] \<Rightarrow> Some ?w1
                 | p # ps \<Rightarrow> run env (do_work env (?w1\<lparr>work_packages := ps\<rparr>) p))"
    using poll props(3) by (subst run.simps) (simp split: list.splits)
  have later: "\<exists>w'. run env w = Some w' \<and> pool_closed w' \<and> work_packages w' = []" if "q = []"
  proof (cases "drop n (package # rest)")
    case Nil
    with step props show ?thesis by simp
  next
    case (Cons p ps)
    let ?w2 = "do_work env (?w1\<lparr>work_packages := ps\<rparr>) p"
    have "command_queue ?w2 = []" "pool_closed ?w2"
      using that by (simp_all add: do_work_keeps)
    with run_without_commands[of ?w2 env] obtain w' where
      "run env ?w2 = Some w' \<and> pool_closed w' \<and> work_packages w' = []"
      by auto
    with step Cons show ?thesis by simp
  qed
  from pause poll props step later show ?thesis by blast
qed

text \<open>
  The example worker is paused when \<open>stop\<close> arrives, with the package of \<open>d.txt\<close> in the
  work queue and the lock of the queue held by another worker at the \<open>get\<close> of
  \<open>_clean_up\<close>. The pool is closed, so every insert raises. The worker does not stop: it
  takes the package, fails to insert the file, and finishes only when it finds the work
  queue empty.
\<close>

lemma stopped_example_poll:
  "poll_command stopped_worker =
     Some (False, stopped_worker\<lparr>command_queue := [], pool_closed := True, races := []\<rparr>)"
  by (simp add: stopped_worker_def example_worker_def poll_command_def run_command_pause
      run_command_stop clean_up_def Let_def)

lemma stopped_example_unit:
  "do_work closed_pool_env
     (stopped_worker\<lparr>command_queue := [], pool_closed := True, races := [],
                       work_packages := []\<rparr>) [''d.txt''] =
   example_worker\<lparr>work_packages := [], pool_closed := True,
                    stdout := [error_text DatabaseError]\<rparr>"
  by (simp add: stopped_worker_def example_worker_def closed_pool_env_def example_eval)

theorem stop_while_paused_can_be_lost_witness:
  "poll_command stopped_worker =
     Some (False, stopped_worker\<lparr>command_queue := [], pool_closed := True, races := []\<rparr>) \<and>
   run closed_pool_env stopped_worker =
     Some (example_worker\<lparr>work_packages := [], pool_closed := True,
                           stdout := [error_text DatabaseError]\<rparr>)"
proof -
  have a: "command_queue stopped_worker = Some COMMAND_PAUSE # [None, Some COMMAND_STOP]"
    and b: "get_blocking [None, Some COMMAND_STOP] = Some (COMMAND_STOP, [])"
    and c: "COMMAND_STOP \<noteq> COMMAND_UNPAUSE" "COMMAND_STOP \<noteq> COMMAND_PAUSE"
    and d: "work_packages stopped_worker = [''d.txt''] # []"
    and e: "races stopped_worker = Some 0 # []"
    by (simp_all add: stopped_worker_def COMMAND_STOP_def COMMAND_PAUSE_def COMMAND_UNPAUSE_def)
  from stop_while_paused_can_be_lost[OF a b c d e, of closed_pool_env]
  obtain w1 where p: "poll_command stopped_worker = Some (False, w1)"
    and r: "run closed_pool_env stopped_worker =
              run closed_pool_env (do_work closed_pool_env (w1\<lparr>work_packages := []\<rparr>) [''d.txt''])"
    by auto
  from p stopped_example_poll
  have w1: "w1 = stopped_worker\<lparr>command_queue := [], pool_closed := True, races := []\<rparr>"
    by simp
  have "run closed_pool_env (example_worker\<lparr>work_packages := [], pool_closed := True,
                           stdout := [error_text DatabaseError]\<rparr>) =
        Some (example_worker\<lparr>work_packages := [], pool_closed := True,
                           stdout := [error_text DatabaseError]\<rparr>)"
    by (subst run.simps) (simp add: poll_command_def example_worker_def)
  with r w1 stopped_example_unit stopped_example_poll show ?thesis by simp
qed

subsection \<open>Faults inside a unit\<close>

lemma date_piece_length: "4 \<le> length (date_piece exif i)"
  by (simp add: date_piece_def apostrophe_def Let_def split: option.splits)

lemma createInsert_zero_iff:
  "createInsert result val = ''0'' \<longleftrightarrow> \<not> has_core_values result"
proof (cases "has_core_values result")
  case True
  then have "\<not> list_ex (\<lambda>element. result element = None) mandatory"
    by (simp add: has_core_values_def mandatory_def)
  then obtain front where
    c: "createInsert result val = front @ date_piece result ''FileCreationDate''"
    by (simp add: createInsert_def Let_def)
  have "4 \<le> length (createInsert result val)"
    unfolding c using date_piece_length[of result "''FileCreationDate''"] by simp
  then have "createInsert result val \<noteq> ''0''" by auto
  with True show ?thesis by simp
next
  case False
  then have "list_ex (\<lambda>element. result element = None) mandatory"
    by (auto simp: has_core_values_def mandatory_def)
  with False show ?thesis by (simp add: createInsert_def)
qed



lemma hits_fault_raises:
  "hits_fault env val result e \<Longrightarrow>
     hash_and_insert env (createInsert result val) result = Inl e"
  by (auto simp: hits_fault_def hash_and_insert_def Let_def split: sum.splits option.splits)


lemma process_results_fault:
  assumes "hits_fault env val result e"
  shows "process_results env val (result # post) w = (Some e, w)"
proof -
  from assms have "has_core_values result" by (simp add: hits_fault_def)
  then have "createInsert result val \<noteq> ''0''" by (simp add: createInsert_zero_iff)
  with hits_fault_raises[OF assms] show ?thesis by (simp add: Let_def)
qed

lemma process_results_append:
  "process_results env val pre w = (None, w1) \<Longrightarrow>
     process_results env val (pre @ rest) w = process_results env val rest w1"
  by (induction env val pre w rule: process_results.induct)
     (auto simp: Let_def split: sum.splits if_splits)

lemma do_work_extractor_fault:
  "exiftool env package = Inl e \<Longrightarrow>
     do_work env w package = w\<lparr>stdout := stdout w @ [error_text e]\<rparr>"
  by (simp add: do_work_def do_work_try_def)

lemma do_work_result_fault:
  assumes "exiftool env package = Inr (pre @ result # post)"
    and "process_results env (values_prefix w) pre w = (None, w1)"
    and "hits_fault env (values_prefix w) result e"
  shows "do_work env w package = w1\<lparr>stdout := stdout w1 @ [error_text e]\<rparr>"
proof -
  have "process_results env (values_prefix w) (pre @ result # post) w = (Some e, w1)"
    using process_results_append[OF assms(2)] process_results_fault[OF assms(3)] by simp
  with assms(1) show ?thesis by (simp add: do_work_def do_work_try_def)
qed

lemma run_next_unit:
  assumes "poll_command w0 = Some (False, w1)" and "work_packages w1 = package # rest"
  shows "run env w0 = run env (do_work env (w1\<lparr>work_packages := rest\<rparr>) package)"
  using assms by (subst run.simps) simp

text \<open>
  Claim C5. A fault of a unit is caught in \<open>_do_work\<close>. When the extractor raises,
  nothing is processed and the exception is printed. When the results before \<open>result\<close>
  were processed without exception, reaching the state \<open>w1\<close>, and \<open>result\<close> hits a fault
  (its file cannot be read, or its insert raises), \<open>_do_work\<close> returns \<open>w1\<close> with the
  exception printed: the results after it have no effect at all. In both cases \<open>run\<close> goes
  on as \<open>run\<close> from the state after the unit, with the other packages still in the
  work queue, the pool as it was and the command queue as it was.
\<close>

theorem unit_fault_is_contained:
  "(\<forall>e. exiftool env package = Inl e \<longrightarrow>
      do_work env w package = w\<lparr>stdout := stdout w @ [error_text e]\<rparr>) \<and>
   (\<forall>pre result post w1 e.
      exiftool env package = Inr (pre @ result # post) \<and>
      process_results env (values_prefix w) pre w = (None, w1) \<and>
      hits_fault env (values_prefix w) result e \<longrightarrow>
      do_work env w package = w1\<lparr>stdout := stdout w1 @ [error_text e]\<rparr>) \<and>
   (\<forall>w0 w1 rest.
      poll_command w0 = Some (False, w1) \<and> work_packages w1 = package # rest \<and>
      w = w1\<lparr>work_packages := rest\<rparr> \<longrightarrow>
      run env w0 = run env (do_work env w package) \<and>
      work_packages (do_work env w package) = rest \<and>
      pool_closed (do_work env w package) = pool_closed w1 \<and>
      command_queue (do_work env w package) = command_queue w1)"
proof -
  have a: "do_work env w package = w\<lparr>stdout := stdout w @ [error_text e]\<rparr>"
    if "exiftool env package = Inl e" for e
    using that by (rule do_work_extractor_fault)
  have b: "do_work env w package = w1\<lparr>stdout := stdout w1 @ [error_text e]\<rparr>"
    if "exiftool env package = Inr (pre @ result # post) \<and>
      process_results env (values_prefix w) pre w = (None, w1) \<and>
      hits_fault env (values_prefix w) result e" for pre result post w1 e
    using that do_work_result_fault by blast
  have c: "run env w0 = run env (do_work env w package) \<and>
      work_packages (do_work env w package) = rest \<and>
      pool_closed (do_work env w package) = pool_closed w1 \<and>
      command_queue (do_work env w package) = command_queue w1"
    if "poll_command w0 = Some (False, w1) \<and> work_packages w1 = package # rest \<and>
      w = w1\<lparr>work_packages := rest\<rparr>" for w0 w1 rest
    using that run_next_unit[of w0 w1 package rest env]
    by (simp add: do_work_work_packages do_work_keeps)
  from a b c show ?thesis by blast
qed

text \<open>
  The file \<open>/d/gone.txt\<close> cannot be read: \<open>a.txt\<close> is inserted, \<open>c.txt\<close> is not, the
  error is printed, and the worker goes on to the package with \<open>d.txt\<close>.
\<close>

lemma pre_ok:
  "process_results example_env (values_prefix waiting_worker) [example_result ''a.txt''] waiting_worker =
     (None, waiting_worker\<lparr>inserted := [example_statement ''a.txt''], traced := [''/d'']\<rparr>)"
  by (simp add: waiting_worker_def example_worker_def example_eval)

lemma gone_faults:
  "hits_fault example_env (values_prefix waiting_worker) (example_result ''gone.txt'') OSError"
  by (simp add: hits_fault_def has_core_values_def example_result_def file_path_def subscript_def
      str_json_def example_env_def)

lemma next_unit:
  "run example_env
     (waiting_worker\<lparr>inserted := [example_statement ''a.txt''], traced := [''/d''],
                      stdout := [error_text OSError]\<rparr>) =
   Some (example_worker\<lparr>work_packages := [],
           inserted := [example_statement ''a.txt'', example_statement ''d.txt''],
           traced := [''/d'', ''/d''], stdout := [error_text OSError]\<rparr>)"
  apply (subst run.simps)
  apply (simp add: poll_command_def waiting_worker_def example_worker_def)
  apply (subst run.simps)
  apply (simp add: poll_command_def example_eval)
  done

theorem unit_fault_is_contained_witness:
  "hits_fault example_env (values_prefix waiting_worker) (example_result ''gone.txt'') OSError \<and>
   do_work example_env waiting_worker faulty_package =
     waiting_worker\<lparr>inserted := [example_statement ''a.txt''], traced := [''/d''],
                      stdout := [error_text OSError]\<rparr> \<and>
   run example_env (example_worker\<lparr>work_packages := [faulty_package, [''d.txt'']]\<rparr>) =
     Some (example_worker\<lparr>work_packages := [],
           inserted := [example_statement ''a.txt'', example_statement ''d.txt''],
           traced := [''/d'', ''/d''], stdout := [error_text OSError]\<rparr>)"
proof -
  note T = unit_fault_is_contained[of example_env faulty_package waiting_worker]
  have ex: "exiftool example_env faulty_package =
      Inr ([example_result ''a.txt''] @ example_result ''gone.txt'' # [example_result ''c.txt''])"
    by (simp add: example_env_def faulty_package_def)
  from T ex pre_ok gone_faults
  have d: "do_work example_env waiting_worker faulty_package =
     (waiting_worker\<lparr>inserted := [example_statement ''a.txt''], traced := [''/d'']\<rparr>)
       \<lparr>stdout := stdout (waiting_worker\<lparr>inserted := [example_statement ''a.txt''],
                                           traced := [''/d'']\<rparr>) @ [error_text OSError]\<rparr>"
    by blast
  then have d': "do_work example_env waiting_worker faulty_package =
     waiting_worker\<lparr>inserted := [example_statement ''a.txt''], traced := [''/d''],
                      stdout := [error_text OSError]\<rparr>"
    by (simp add: waiting_worker_def example_worker_def)
  let ?w0 = "example_worker\<lparr>work_packages := [faulty_package, [''d.txt'']]\<rparr>"
  have p: "poll_command ?w0 = Some (False, ?w0)"
    by (simp add: poll_command_def example_worker_def)
  have q: "work_packages ?w0 = faulty_package # [[''d.txt'']]" by simp
  have r: "waiting_worker = ?w0\<lparr>work_packages := [[''d.txt'']]\<rparr>"
    by (simp add: waiting_worker_def)
  from T p q r
  have "run example_env ?w0 = run example_env (do_work example_env waiting_worker faulty_package)"
    by blast
  with d' next_unit gone_faults show ?thesis by simp
qed

subsection \<open>Results without a core value\<close>












end
